theory Spec2Isabelle
  imports Complex_Main
begin

section \<open>The MD time-series store of Agate (\<open>HistDataMD\<close>)\<close>

text \<open>
  The development embeds the member functions of \<open>HistDataMD\<close>
  (\<open>src/src/hist/histdatamd.cpp\<close>) that read and mutate the per-timestep series.

  Conventions of the embedding.
  \<^item> A \<open>double\<close> is a \<open>real\<close>: rounding is not modelled, so every statement about
    values is a statement of exact arithmetic. Where IEEE arithmetic would leave the
    reals (a division by zero giving an infinity or a NaN) the model stops with
    \<open>NonFinite\<close>.
  \<^item> An \<open>unsigned\<close> count or index is a \<open>nat\<close>, an \<open>int\<close> an \<open>int\<close>. Products and
    sums of sizes are taken without a width, which is the source's 32-bit arithmetic
    as long as they stay below \<open>2 ^ 31\<close>; a subtraction that can pass below zero on
    small inputs has what the wrap-around does written out where it is used.
  \<^item> A \<open>std::vector<double>\<close> is a \<open>real list\<close>. \<open>operator[]\<close>, iterator ranges and
    \<open>std::copy\<close> are not bounds-checked by the source: an access outside the vector is
    the outcome \<open>UndefinedBehaviour\<close>.
  \<^item> A thrown \<open>Agate::Exception\<close> is \<open>Inl (Exception stack)\<close>, the stack holding the
    messages added so far, the first one thrown first.
\<close>

subsection \<open>Outcomes\<close>

datatype errcode = ERRDIV | ERRWAR | ERRABT

datatype failure =
    Exception "(string \<times> errcode) list"
  | StdException
  | UndefinedBehaviour
  | NonFinite

text \<open>\<open>e.ADD(msg, code)\<close> pushes one more message on the exception's stack.\<close>

fun ADD :: "failure \<Rightarrow> string \<Rightarrow> errcode \<Rightarrow> failure" where
  "ADD (Exception stack) msg code = Exception (stack @ [(msg, code)])"
| "ADD f msg code = f"

subsection \<open>Vectors\<close>

text \<open>\<open>v[i]\<close> read without a bounds check.\<close>

definition vec_at :: "'a list \<Rightarrow> nat \<Rightarrow> failure + 'a" where
  "vec_at v i = (if i < length v then Inr (v ! i) else Inl UndefinedBehaviour)"

text \<open>\<open>v.resize(n)\<close> and \<open>v.resize(n, 0.)\<close>: truncate, or fill up with zeros.\<close>

definition resize :: "nat \<Rightarrow> real list \<Rightarrow> real list" where
  "resize n v = take n v @ replicate (n - length v) 0"

subsection \<open>The store\<close>

text \<open>
  Modelled from the spec: the member \<open>_xyz\<close> of the base class \<open>HistData\<close>, whose
  declaration is not part of the sources at hand. The spec's data model has three
  Cartesian components per atom (\<open>velocities[t][atom][3]\<close>), and the source writes
  \<open>3\<close> and \<open>_xyz\<close> interchangeably.
\<close>

definition xyz :: nat where
  "xyz = 3"

text \<open>
  The fields of \<open>HistData\<close> that the embedded functions read (\<open>_ntime\<close>,
  \<open>_ntimeAvail\<close>, \<open>_natom\<close>, \<open>_typat\<close>, \<open>_znucl\<close>, \<open>_time\<close>, \<open>_tryToMap\<close>) and the
  five series that \<open>HistDataMD\<close> adds.
\<close>

record histdatamd =
  ntime :: nat
  ntimeAvail :: nat
  natom :: nat
  typat :: "nat list"
  znucl :: "nat list"
  time :: "real list"
  tryToMap :: bool
  ekin :: "real list"
  velocities :: "real list"
  temperature :: "real list"
  pressure :: "real list"
  entropy :: "real list"

subsection \<open>Accessors\<close>

text \<open>
  Modelled from the spec: \<open>utils::to_string\<close> (\<open>base/utils.hpp\<close> is not part of the
  sources at hand), the decimal rendering of an index in a reported failure.
\<close>

function to_string :: "nat \<Rightarrow> string" where
  "to_string n =
     (if n < 10 then [''0123456789'' ! n]
      else to_string (n div 10) @ [''0123456789'' ! (n mod 10)])"
  by pat_completeness auto
termination
  by (relation "measure id") auto

declare to_string.simps [simp del]

text \<open>
  \<open>getVel\<close> returns the address of \<open>_velocities[time*3*_natom]\<close>: the model returns
  what can be read from that address on, the vector from that element.
\<close>

definition getVel :: "histdatamd \<Rightarrow> nat \<Rightarrow> failure + real list" where
  "getVel s t =
     (if t > ntime s then
        Inl (Exception [(''Out of range for velocities '' @ to_string t @ ''/''
                          @ to_string (ntime s), ERRDIV)])
      else if t * 3 * natom s < length (velocities s)
        then Inr (drop (t * 3 * natom s) (velocities s))
      else Inl UndefinedBehaviour)"

definition getEkin :: "histdatamd \<Rightarrow> nat \<Rightarrow> failure + real" where
  "getEkin s t =
     (if t > ntime s then
        Inl (Exception [(''Out of range for ekin '' @ to_string t @ ''/''
                          @ to_string (ntime s), ERRDIV)])
      else vec_at (ekin s) t)"

definition getTemperature :: "histdatamd \<Rightarrow> nat \<Rightarrow> failure + real" where
  "getTemperature s t =
     (if t > ntime s then
        Inl (Exception [(''Out of range for temperature'' @ to_string t @ ''/''
                          @ to_string (ntime s), ERRDIV)])
      else vec_at (temperature s) t)"

definition getPressure :: "histdatamd \<Rightarrow> nat \<Rightarrow> failure + real" where
  "getPressure s t =
     (if t > ntime s then
        Inl (Exception [(''Out of range for pressure'' @ to_string t @ ''/''
                          @ to_string (ntime s), ERRDIV)])
      else vec_at (pressure s) t)"

subsection \<open>Loops\<close>

text \<open>
  \<open>for (unsigned i = 0; i < n; ++i) body\<close> on a state \<open>a\<close>, stopping at the first
  failure.
\<close>

definition for_loop :: "nat \<Rightarrow> (nat \<Rightarrow> 'a \<Rightarrow> failure + 'a) \<Rightarrow> 'a \<Rightarrow> failure + 'a" where
  "for_loop n body a =
     fold (\<lambda>i r. case r of Inl f \<Rightarrow> Inl f | Inr x \<Rightarrow> body i x) [0..<n] (Inr a)"

subsection \<open>Merging two stores: \<open>operator+=(HistDataMD&)\<close>\<close>

text \<open>
  \<open>std::copy(src.begin(), src.end(), dst.begin() + off)\<close>: the whole of \<open>src\<close> is
  written over \<open>dst\<close> from \<open>off\<close> on; nothing checks that it fits.
\<close>

definition copy_into :: "real list \<Rightarrow> real list \<Rightarrow> nat \<Rightarrow> failure + real list" where
  "copy_into src dst off =
     (if off + length src \<le> length dst
      then Inr (take off dst @ src @ drop (off + length src) dst)
      else Inl UndefinedBehaviour)"

text \<open>
  Modelled from the spec: \<open>utils::mean\<close> (\<open>base/utils.hpp\<close> is not part of the sources
  at hand), the arithmetic mean of a range ("compares mean temperature of the two
  segments"). The mean of an empty range is the quotient 0/0, a NaN: \<open>None\<close>.
\<close>

definition mean :: "real list \<Rightarrow> real option" where
  "mean v = (if v = [] then None else Some (sum_list v / real (length v)))"

text \<open>
  The test \<open>abs(m1-m2)/m1 > 0.5\<close> on doubles: a comparison with a NaN is false, and
  a nonzero value over zero is an infinity.
\<close>

definition very_different :: "real option \<Rightarrow> real option \<Rightarrow> bool" where
  "very_different m1 m2 =
     (case m1 of None \<Rightarrow> False
      | Some a \<Rightarrow> (case m2 of None \<Rightarrow> False
          | Some b \<Rightarrow> (if a = 0 then b \<noteq> 0 else \<bar>a - b\<bar> / a > 1 / 2)))"

definition dtion_warning :: "string \<times> errcode" where
  "dtion_warning = (''dtion are different !!! BE VERY CAREFULL FOR ANALYSIS !!!'', ERRWAR)"

definition temperature_warning :: "string \<times> errcode" where
  "temperature_warning =
     (''Temperatures seem very different (+50%) !!! BE VERY CAREFULL FOR ANALYSIS !!!'', ERRWAR)"

definition pressure_warning :: "string \<times> errcode" where
  "pressure_warning =
     (''Pressures seem very different (+50%) !!! BE VERY CAREFULL FOR ANALYSIS !!!'', ERRWAR)"

text \<open>
  The frame spacing of a segment, \<open>_time[1]-_time[0]\<close>, and the first block of the
  merge: what it prints when both segments have more than one frame.
\<close>

definition frame_spacing :: "histdatamd \<Rightarrow> failure + real" where
  "frame_spacing s =
     (case vec_at (time s) 1 of Inl f \<Rightarrow> Inl f
      | Inr t1 \<Rightarrow> (case vec_at (time s) 0 of Inl f \<Rightarrow> Inl f
          | Inr t0 \<Rightarrow> Inr (t1 - t0)))"

definition check_dtion :: "histdatamd \<Rightarrow> histdatamd \<Rightarrow> failure + (string \<times> errcode) list" where
  "check_dtion s h =
     (if ntime s > 1 \<and> ntime h > 1 then
        (case frame_spacing s of Inl f \<Rightarrow> Inl f
         | Inr dt1 \<Rightarrow> (case frame_spacing h of Inl f \<Rightarrow> Inl f
             | Inr dt2 \<Rightarrow> Inr (if \<bar>dt1 - dt2\<bar> > 1 / 10 ^ 6 then [dtion_warning] else [])))
      else Inr [])"

text \<open>
  Modelled from the spec: \<open>HistData::operator+=\<close> of the base class, which is not part
  of the sources at hand. "Result frame count = sum of both segments' previously
  filled frame counts; all series are resized to the new total before being
  populated, preserving already-written content and appending new content at the
  correct offset." Of the base class's series the embedding holds the time axis.
\<close>

definition HistData_add :: "histdatamd \<Rightarrow> histdatamd \<Rightarrow> histdatamd" where
  "HistData_add s h =
     s\<lparr> ntime := ntime s + ntime h,
        ntimeAvail := ntime s + ntime h,
        time := resize (ntime s) (time s) @ resize (ntime h) (time h) \<rparr>"

text \<open>
  The atom order: \<open>this->reorder(hist)\<close> is the structural-matching routine of the base
  class, an external capability; it is a parameter \<open>reorder\<close> of the merge. An
  \<open>Agate::Exception\<close> from it is caught and dropped, leaving the order empty; the flag
  says whether some atom is moved.
\<close>

definition find_order ::
  "(histdatamd \<Rightarrow> histdatamd \<Rightarrow> failure + nat list) \<Rightarrow> histdatamd \<Rightarrow> histdatamd
     \<Rightarrow> failure + (nat list \<times> bool)" where
  "find_order reorder s h =
     (if tryToMap s then
        (case reorder s h of
           Inr order \<Rightarrow>
             Inr (order, list_ex (\<lambda>i. i \<noteq> order ! i) [0..<length order])
         | Inl (Exception stack) \<Rightarrow> Inr ([], False)
         | Inl f \<Rightarrow> Inl f)
      else Inr ([], False))"

text \<open>
  The innermost statement of the permuted copy,
  \<open>_velocities[start+itime*3*_natom+iatom*3+coord] =
     hist._velocities[itime*3*_natom+order[iatom]*3+coord]\<close>.
\<close>

definition copy_component ::
  "nat list \<Rightarrow> real list \<Rightarrow> nat \<Rightarrow> nat \<Rightarrow> nat \<Rightarrow> nat \<Rightarrow> nat \<Rightarrow> real list
     \<Rightarrow> failure + real list" where
  "copy_component order hv start n itime iatom coord v =
     (case vec_at order iatom of Inl f \<Rightarrow> Inl f
      | Inr oi \<Rightarrow>
         (case vec_at hv (itime * 3 * n + oi * 3 + coord) of Inl f \<Rightarrow> Inl f
          | Inr x \<Rightarrow>
             (if start + itime * 3 * n + iatom * 3 + coord < length v
              then Inr (v[start + itime * 3 * n + iatom * 3 + coord := x])
              else Inl UndefinedBehaviour)))"

definition copy_reordered ::
  "nat list \<Rightarrow> real list \<Rightarrow> nat \<Rightarrow> nat \<Rightarrow> nat \<Rightarrow> real list \<Rightarrow> failure + real list" where
  "copy_reordered order hv start n hntime v =
     for_loop hntime (\<lambda>itime.
       for_loop n (\<lambda>iatom.
         for_loop 3 (\<lambda>coord.
           copy_component order hv start n itime iatom coord))) v"

text \<open>
  The velocity block of the merge, run when both stores hold velocities.
\<close>

definition merge_velocities ::
  "nat list \<Rightarrow> bool \<Rightarrow> nat \<Rightarrow> histdatamd \<Rightarrow> histdatamd \<Rightarrow> failure + real list" where
  "merge_velocities order reord prevNtime s h =
     (let v = resize (ntime s * natom s * xyz) (velocities s) in
      if \<not> reord then copy_into (velocities h) v (prevNtime * natom s * xyz)
      else copy_reordered order (velocities h) (prevNtime * natom s * xyz) (natom s) (ntime h) v)"

text \<open>
  The blocks of the merge, in the order of the source. Each takes the store as the
  blocks before it left it.

  Velocities held by one store only are filled with zeros in the other; \<open>dovel\<close>
  says whether both stores hold velocities after that.
\<close>

definition prepare_velocities ::
  "nat \<Rightarrow> histdatamd \<Rightarrow> histdatamd \<Rightarrow> histdatamd \<times> histdatamd \<times> bool" where
  "prepare_velocities prevNtime s hist =
     (let dovel = ((velocities s = []) \<noteq> (velocities hist = []));
          s' = (if dovel \<and> velocities s = []
                then s\<lparr>velocities := resize (xyz * natom s * prevNtime) (velocities s)\<rparr>
                else s);
          hist' = (if dovel \<and> velocities hist = []
                   then hist\<lparr>velocities :=
                          resize (xyz * natom s' * ntimeAvail hist) (velocities hist)\<rparr>
                   else hist)
      in (s', hist', \<not> (velocities s' = [] \<or> velocities hist' = [])))"

text \<open>
  \<open>_ekin.resize(_ntime); std::copy(hist._ekin.begin(), hist._ekin.end(),
  _ekin.begin()+prevNtime)\<close>, and the same for the temperature and the pressure.
\<close>

definition merge_ekin :: "nat \<Rightarrow> histdatamd \<Rightarrow> histdatamd \<Rightarrow> failure + histdatamd" where
  "merge_ekin prevNtime hist s =
     (case copy_into (ekin hist) (resize (ntime s) (ekin s)) prevNtime of
        Inl f \<Rightarrow> Inl f
      | Inr v \<Rightarrow> Inr (s\<lparr>ekin := v\<rparr>))"

definition merge_temperature :: "nat \<Rightarrow> histdatamd \<Rightarrow> histdatamd \<Rightarrow> failure + histdatamd" where
  "merge_temperature prevNtime hist s =
     (case copy_into (temperature hist) (resize (ntime s) (temperature s)) prevNtime of
        Inl f \<Rightarrow> Inl f
      | Inr v \<Rightarrow> Inr (s\<lparr>temperature := v\<rparr>))"

definition merge_pressure :: "nat \<Rightarrow> histdatamd \<Rightarrow> histdatamd \<Rightarrow> failure + histdatamd" where
  "merge_pressure prevNtime hist s =
     (case copy_into (pressure hist) (resize (ntime s) (pressure s)) prevNtime of
        Inl f \<Rightarrow> Inl f
      | Inr v \<Rightarrow> Inr (s\<lparr>pressure := v\<rparr>))"

text \<open>The two tests on the means, made before the series is resized.\<close>

definition check_temperature :: "histdatamd \<Rightarrow> histdatamd \<Rightarrow> (string \<times> errcode) list" where
  "check_temperature s hist =
     (if very_different (mean (temperature s)) (mean (temperature hist))
      then [temperature_warning] else [])"

definition check_pressure :: "histdatamd \<Rightarrow> histdatamd \<Rightarrow> (string \<times> errcode) list" where
  "check_pressure s hist =
     (if very_different (mean (pressure s)) (mean (pressure hist))
      then [pressure_warning] else [])"

text \<open>The velocity block, skipped unless \<open>dovel\<close>.\<close>

definition merge_velocity_block ::
  "bool \<Rightarrow> nat list \<Rightarrow> bool \<Rightarrow> nat \<Rightarrow> histdatamd \<Rightarrow> histdatamd \<Rightarrow> failure + histdatamd" where
  "merge_velocity_block dovel order reord prevNtime hist s =
     (if dovel then
        (case merge_velocities order reord prevNtime s hist of
           Inl f \<Rightarrow> Inl f
         | Inr v \<Rightarrow> Inr (s\<lparr>velocities := v\<rparr>))
      else Inr s)"

text \<open>
  The last block: \<open>_entropy.resize(_ntime); std::copy(hist._ekin.begin(),
  hist._ekin.end(),_ekin.begin()+prevNtime)\<close>. The entropy is resized, and what is
  copied is the kinetic energy, once more.
\<close>

definition merge_entropy :: "nat \<Rightarrow> histdatamd \<Rightarrow> histdatamd \<Rightarrow> failure + histdatamd" where
  "merge_entropy prevNtime hist s =
     (let s' = s\<lparr>entropy := resize (ntime s) (entropy s)\<rparr> in
      case copy_into (ekin hist) (ekin s') prevNtime of
        Inl f \<Rightarrow> Inl f
      | Inr v \<Rightarrow> Inr (s'\<lparr>ekin := v\<rparr>))"

text \<open>
  What the merge leaves: the store itself, the appended store (whose velocities the
  merge fills with zeros when only the base has some), and the lines printed on
  \<open>std::cout\<close>.
\<close>

record merged =
  base :: histdatamd
  appended :: histdatamd
  printed :: "(string \<times> errcode) list"

text \<open>
  \<open>operator+=(HistDataMD& hist)\<close>. On a direct call \<open>_ntime\<close> is still the size of
  the temperature series, and the fields of the base class are merged first.
\<close>

definition add_md ::
  "(histdatamd \<Rightarrow> histdatamd \<Rightarrow> failure + nat list) \<Rightarrow> histdatamd \<Rightarrow> histdatamd
     \<Rightarrow> failure + merged" where
  "add_md reorder this hist =
     (let prevNtime = length (temperature this) in
      case check_dtion this hist of Inl f \<Rightarrow> Inl f
      | Inr w1 \<Rightarrow>
     (let s1 = (if prevNtime = ntime this then HistData_add this hist else this);
          prep = prepare_velocities prevNtime s1 hist;
          h1 = fst (snd prep);
          dovel = snd (snd prep)
      in
      case merge_ekin prevNtime h1 (fst prep) of Inl f \<Rightarrow> Inl f
      | Inr s3 \<Rightarrow>
     (case merge_temperature prevNtime h1 s3 of Inl f \<Rightarrow> Inl f
      | Inr s4 \<Rightarrow>
     (case find_order reorder s4 h1 of Inl f \<Rightarrow> Inl f
      | Inr ord \<Rightarrow>
     (case merge_pressure prevNtime h1 s4 of Inl f \<Rightarrow> Inl f
      | Inr s5 \<Rightarrow>
     (case merge_velocity_block dovel (fst ord) (snd ord) prevNtime h1 s5 of
        Inl f \<Rightarrow> Inl f
      | Inr s6 \<Rightarrow>
     (case merge_entropy prevNtime h1 s6 of Inl f \<Rightarrow> Inl f
      | Inr s7 \<Rightarrow>
          Inr \<lparr> base = s7, appended = h1,
                printed = w1 @ check_temperature s3 h1 @ check_pressure s4 h1 \<rparr>)))))))"

subsection \<open>Interpolating frames: \<open>interpolate\<close>\<close>

text \<open>
  \<open>for (int i = n-1; i > 0; --i) body\<close>, the loop over the segments from the most
  recent one back to the first.
\<close>

definition for_down :: "nat \<Rightarrow> (nat \<Rightarrow> 'a \<Rightarrow> failure + 'a) \<Rightarrow> 'a \<Rightarrow> failure + 'a" where
  "for_down n body a =
     fold (\<lambda>i r. case r of Inl f \<Rightarrow> Inl f | Inr x \<Rightarrow> body i x) (rev [1..<n]) (Inr a)"

text \<open>
  The frame counter \<open>currentTime\<close> is an \<open>unsigned\<close> that the source decrements once
  below zero. The model keeps it as an \<open>int\<close>; the source's value is this one modulo
  \<open>2 ^ 32\<close>, and a negative counter indexes no element of a vector.
\<close>

definition vec_set :: "real list \<Rightarrow> int \<Rightarrow> real \<Rightarrow> failure + real list" where
  "vec_set v i x =
     (if 0 \<le> i \<and> nat i < length v then Inr (v[nat i := x]) else Inl UndefinedBehaviour)"

text \<open>
  \<open>std::vector<double>(v.begin()+a, v.begin()+b)\<close>, a copy of the range \<open>[a, b)\<close>.
\<close>

definition slice :: "real list \<Rightarrow> nat \<Rightarrow> nat \<Rightarrow> failure + real list" where
  "slice v a b =
     (if a \<le> b \<and> b \<le> length v then Inr (take (b - a) (drop a v))
      else Inl UndefinedBehaviour)"

text \<open>
  The number of frames after the interpolation, the \<open>int newNTime\<close> of the source:
  \<open>ninter*(_ntime-1)\<close>, less \<open>_ntime-2\<close> when the amplitude is 1 up to \<open>1e-10\<close>. The
  unsigned operands wrap modulo \<open>2 ^ 32\<close> and the result is read as an \<open>int\<close>, which
  is the value below whenever that value is an \<open>int\<close> of 32 bits.
\<close>

definition removeDuplica :: "real \<Rightarrow> bool" where
  "removeDuplica amplitude = (\<bar>amplitude - 1\<bar> < 1 / 10 ^ 10)"

definition newNTime :: "nat \<Rightarrow> real \<Rightarrow> nat \<Rightarrow> int" where
  "newNTime ninter amplitude n =
     int ninter * (int n - 1) - (if removeDuplica amplitude then int n - 2 else 0)"

text \<open>
  \<open>double alpha = amplitude/(ninter-1)\<close>, with the unsigned \<open>ninter-1\<close>: for
  \<open>ninter = 1\<close> the quotient is not a real number, for \<open>ninter = 0\<close> the divisor is
  \<open>2 ^ 32 - 1\<close>.
\<close>

definition blend_alpha :: "nat \<Rightarrow> real \<Rightarrow> real option" where
  "blend_alpha ninter amplitude =
     (if ninter = 1 then None
      else if ninter = 0 then Some (amplitude / (2 ^ 32 - 1))
      else Some (amplitude / real (ninter - 1)))"

text \<open>
  One scalar series in one synthetic frame:
  \<open>_ekin[currentTime] = gamma*ekinLast+beta*_ekin[firstStep]\<close>.
\<close>

definition blend_scalar ::
  "real \<Rightarrow> real \<Rightarrow> real \<Rightarrow> nat \<Rightarrow> int \<Rightarrow> real list \<Rightarrow> failure + real list" where
  "blend_scalar gamma beta lastv firstStep currentTime v =
     (case vec_at v firstStep of Inl f \<Rightarrow> Inl f
      | Inr firstv \<Rightarrow> vec_set v currentTime (gamma * lastv + beta * firstv))"

text \<open>
  One velocity component in one synthetic frame:
  \<open>_velocities[natom3*currentTime+iatomDir] =
     gamma*velocitiesLast[iatomDir]+beta*_velocities[natom3*firstStep+iatomDir]\<close>.
\<close>

definition blend_velocity ::
  "real \<Rightarrow> real \<Rightarrow> real list \<Rightarrow> nat \<Rightarrow> nat \<Rightarrow> int \<Rightarrow> nat \<Rightarrow> real list
     \<Rightarrow> failure + real list" where
  "blend_velocity gamma beta velocitiesLast natom3 firstStep currentTime iatomDir v =
     (case vec_at velocitiesLast iatomDir of Inl f \<Rightarrow> Inl f
      | Inr lastv \<Rightarrow>
         (case vec_at v (natom3 * firstStep + iatomDir) of Inl f \<Rightarrow> Inl f
          | Inr firstv \<Rightarrow>
              vec_set v (int natom3 * currentTime + int iatomDir)
                (gamma * lastv + beta * firstv)))"

text \<open>
  The values of the frame \<open>lastStep\<close>, read before the synthetic frames of its segment
  are written.
\<close>

record last_frame =
  velocitiesLast :: "real list"
  ekinLast :: real
  temperatureLast :: real
  pressureLast :: real
  entropyLast :: real

definition read_last :: "nat \<Rightarrow> nat \<Rightarrow> histdatamd \<Rightarrow> failure + last_frame" where
  "read_last natom3 lastStep s =
     (case slice (velocities s) (natom3 * lastStep) (natom3 * (lastStep + 1)) of
        Inl f \<Rightarrow> Inl f
      | Inr lv \<Rightarrow>
     (case vec_at (ekin s) lastStep of Inl f \<Rightarrow> Inl f
      | Inr le \<Rightarrow>
     (case vec_at (temperature s) lastStep of Inl f \<Rightarrow> Inl f
      | Inr lt \<Rightarrow>
     (case vec_at (pressure s) lastStep of Inl f \<Rightarrow> Inl f
      | Inr lp \<Rightarrow>
     (case vec_at (entropy s) lastStep of Inl f \<Rightarrow> Inl f
      | Inr ls \<Rightarrow>
          Inr \<lparr> velocitiesLast = lv, ekinLast = le, temperatureLast = lt,
                pressureLast = lp, entropyLast = ls \<rparr>)))))"

text \<open>The body of the loop over \<open>tinter\<close>: one synthetic frame, and \<open>--currentTime\<close>.\<close>

definition blend_frame ::
  "real option \<Rightarrow> nat \<Rightarrow> nat \<Rightarrow> last_frame \<Rightarrow> nat \<Rightarrow> histdatamd \<times> int
     \<Rightarrow> failure + histdatamd \<times> int" where
  "blend_frame alpha natom3 firstStep l tinter sc =
     (case alpha of None \<Rightarrow> Inl NonFinite
      | Some al \<Rightarrow>
     (let s = fst sc; currentTime = snd sc;
          beta = real tinter * al; gamma = 1 - beta in
      case for_loop natom3
             (blend_velocity gamma beta (velocitiesLast l) natom3 firstStep currentTime)
             (velocities s) of
        Inl f \<Rightarrow> Inl f
      | Inr v' \<Rightarrow>
     (case blend_scalar gamma beta (ekinLast l) firstStep currentTime (ekin s) of
        Inl f \<Rightarrow> Inl f
      | Inr e' \<Rightarrow>
     (case blend_scalar gamma beta (temperatureLast l) firstStep currentTime
             (temperature s) of
        Inl f \<Rightarrow> Inl f
      | Inr t' \<Rightarrow>
     (case blend_scalar gamma beta (pressureLast l) firstStep currentTime (pressure s) of
        Inl f \<Rightarrow> Inl f
      | Inr p' \<Rightarrow>
     (case blend_scalar gamma beta (entropyLast l) firstStep currentTime (entropy s) of
        Inl f \<Rightarrow> Inl f
      | Inr en' \<Rightarrow>
          Inr (s\<lparr> velocities := v', ekin := e', temperature := t', pressure := p',
                  entropy := en' \<rparr>, currentTime - 1)))))))"

text \<open>
  The body of the loop over \<open>lastStep\<close>: the segment between the frames
  \<open>lastStep - 1\<close> and \<open>lastStep\<close>.
\<close>

definition blend_segment ::
  "nat \<Rightarrow> real \<Rightarrow> nat \<Rightarrow> nat \<Rightarrow> histdatamd \<times> int \<Rightarrow> failure + histdatamd \<times> int" where
  "blend_segment ninter amplitude natom3 lastStep sc =
     (case read_last natom3 lastStep (fst sc) of Inl f \<Rightarrow> Inl f
      | Inr l \<Rightarrow>
     (case for_loop ninter
             (blend_frame (blend_alpha ninter amplitude) natom3 (lastStep - 1) l) sc of
        Inl f \<Rightarrow> Inl f
      | Inr sc' \<Rightarrow>
          Inr (fst sc', if removeDuplica amplitude then snd sc' + 1 else snd sc')))"

text \<open>
  Modelled from the spec: \<open>HistData::interpolate\<close> of the base class, which is not
  part of the sources at hand. "Produce \<open>ninter \<times> (ntime - 1)\<close> frames (minus duplicate
  elision)"; "the same abstract algorithm is re-applied recursively by the owning
  aggregate for its other series". Of the base class's series the embedding holds
  the time axis, a scalar series, blended as the scalar series of the derived class
  are.
\<close>

definition blend_time_segment ::
  "nat \<Rightarrow> real \<Rightarrow> nat \<Rightarrow> real list \<times> int \<Rightarrow> failure + real list \<times> int" where
  "blend_time_segment ninter amplitude lastStep tc =
     (case vec_at (fst tc) lastStep of Inl f \<Rightarrow> Inl f
      | Inr timeLast \<Rightarrow>
     (case for_loop ninter
             (\<lambda>tinter tc.
                case blend_alpha ninter amplitude of None \<Rightarrow> Inl NonFinite
                | Some al \<Rightarrow>
                   (case blend_scalar (1 - real tinter * al) (real tinter * al) timeLast
                           (lastStep - 1) (snd tc) (fst tc) of
                      Inl f \<Rightarrow> Inl f
                    | Inr t' \<Rightarrow> Inr (t', snd tc - 1))) tc of
        Inl f \<Rightarrow> Inl f
      | Inr tc' \<Rightarrow>
          Inr (fst tc', if removeDuplica amplitude then snd tc' + 1 else snd tc')))"

definition HistData_interpolate :: "nat \<Rightarrow> real \<Rightarrow> histdatamd \<Rightarrow> failure + histdatamd" where
  "HistData_interpolate ninter amplitude s =
     (let n = newNTime ninter amplitude (ntime s) in
      if n < 0 then Inl StdException
      else
        (case for_down (ntime s) (blend_time_segment ninter amplitude)
                (resize (nat n) (time s), n - 1) of
           Inl f \<Rightarrow> Inl f
         | Inr tc \<Rightarrow> Inr (s\<lparr> ntime := nat n, ntimeAvail := nat n, time := fst tc \<rparr>)))"

text \<open>
  \<open>interpolate\<close> itself. \<open>waitTime\<close> waits for the loading thread and changes
  nothing. A negative \<open>newNTime\<close> reaches \<open>resize\<close> as a size beyond what a vector can
  hold, and \<open>resize\<close> throws.
\<close>

definition interpolate :: "nat \<Rightarrow> real \<Rightarrow> histdatamd \<Rightarrow> failure + histdatamd" where
  "interpolate ninter amplitude this =
     (let n = newNTime ninter amplitude (ntime this);
          natom3 = 3 * natom this in
      if n < 0 then Inl StdException
      else
        (let s0 = this\<lparr> velocities := resize (natom3 * nat n) (velocities this),
                        ekin := resize (natom3 * nat n) (ekin this),
                        temperature := resize (xyz * nat n) (temperature this),
                        pressure := resize (xyz * xyz * nat n) (pressure this),
                        entropy := resize (nat n) (entropy this) \<rparr>
         in case for_down (ntime this) (blend_segment ninter amplitude natom3) (s0, n - 1) of
              Inl f \<Rightarrow> Inl f
            | Inr sc \<Rightarrow> HistData_interpolate ninter amplitude (fst sc)))"

subsection \<open>Physical constants\<close>

text \<open>
  The constants of \<open>base/phys.hpp\<close>, which is not part of the sources at hand, are
  parameters of the functions that use them.
\<close>

record phys =
  b2A :: real
  atu2fs :: real
  THz2Ha :: real
  Ha2eV :: real
  kB :: real
  eV :: real

subsection \<open>Velocity autocorrelation: \<open>getVACF\<close>\<close>

text \<open>
  The unsigned difference \<open>tend-tbegin\<close>, which wraps when \<open>tend < tbegin\<close>.
\<close>

definition usub :: "nat \<Rightarrow> nat \<Rightarrow> nat" where
  "usub a b = (if b \<le> a then a - b else a + 2 ^ 32 - b)"

text \<open>
  The number of atoms of each type: \<open>++ntypat[_typat[iatom]]\<close> for every atom, then
  \<open>ntypat[0] = _natom\<close>.
\<close>

definition count_type :: "nat list \<Rightarrow> nat \<Rightarrow> nat list \<Rightarrow> failure + nat list" where
  "count_type tp iatom nt =
     (case vec_at tp iatom of Inl f \<Rightarrow> Inl f
      | Inr t \<Rightarrow>
         (if t < length nt then Inr (nt[t := nt ! t + 1]) else Inl UndefinedBehaviour))"

definition ntypat :: "histdatamd \<Rightarrow> failure + nat list" where
  "ntypat s =
     (case for_loop (natom s) (count_type (typat s)) (replicate (length (znucl s) + 1) 0) of
        Inl f \<Rightarrow> Inl f
      | Inr nt \<Rightarrow> Inr (nt[0 := natom s]))"

text \<open>
  The two statements in the innermost loop of the aggregation:
  \<open>vacftau[0] += fullvacf[shift+iatom*3+c]\<close> and
  \<open>vacftau[_typat[iatom]] += fullvacf[shift+iatom*3+c]\<close>.
\<close>

definition add_channel ::
  "real list \<Rightarrow> nat list \<Rightarrow> nat \<Rightarrow> nat \<Rightarrow> nat \<Rightarrow> real list \<Rightarrow> failure + real list" where
  "add_channel fullvacf tp shift iatom c vacftau =
     (case vec_at fullvacf (shift + iatom * 3 + c) of Inl f \<Rightarrow> Inl f
      | Inr x \<Rightarrow>
     (if 0 < length vacftau then
        (let row = vacftau[0 := vacftau ! 0 + x] in
         case vec_at tp iatom of Inl f \<Rightarrow> Inl f
         | Inr t \<Rightarrow>
            (if t < length row then Inr (row[t := row ! t + x])
             else Inl UndefinedBehaviour))
      else Inl UndefinedBehaviour))"

definition vacf_row ::
  "real list \<Rightarrow> histdatamd \<Rightarrow> nat \<Rightarrow> real list \<Rightarrow> failure + real list" where
  "vacf_row fullvacf s itau vacftau =
     for_loop (natom s) (\<lambda>iatom.
       for_loop 3 (\<lambda>c.
         add_channel fullvacf (typat s) (itau * 3 * natom s) iatom c)) vacftau"

definition vacf_tmp :: "real list \<Rightarrow> histdatamd \<Rightarrow> nat \<Rightarrow> failure + real list list" where
  "vacf_tmp fullvacf s ntau =
     for_loop ntau (\<lambda>itau tmp.
         case vacf_row fullvacf s itau (tmp ! itau) of Inl f \<Rightarrow> Inl f
         | Inr row \<Rightarrow> Inr (tmp[itau := row]))
       (replicate ntau (replicate (length (znucl s) + 1) 0))"

definition conversion2nm2ps2 :: "phys \<Rightarrow> real" where
  "conversion2nm2ps2 ph =
     (b2A ph * (1 / 10)) * (b2A ph * (1 / 10))
       / (atu2fs ph * (1 / 10 ^ 3) * atu2fs ph * (1 / 10 ^ 3))"

text \<open>
  The normalisation \<open>vacf_tmp[itau][ityp]/(natom_3)*conversion2nm2ps2\<close> of one type.
  For a type without atoms the divisor is zero, and the quotient of doubles is an
  infinity or a NaN; so is the conversion factor for a zero unit of time.
\<close>

definition normalise_type ::
  "phys \<Rightarrow> real list list \<Rightarrow> nat list \<Rightarrow> nat \<Rightarrow> nat \<Rightarrow> failure + real list" where
  "normalise_type ph tmp nt ntau ityp =
     (if 0 < ntau \<and> (3 * (nt ! ityp) = 0 \<or> atu2fs ph = 0) then Inl NonFinite
      else Inr (map (\<lambda>itau. tmp ! itau ! ityp / real (3 * (nt ! ityp))
                                 * conversion2nm2ps2 ph) [0..<ntau]))"

text \<open>
  \<open>getVACF\<close>. The autocorrelation primitive \<open>HistData::acf\<close> of the base class is an
  external numeric utility, the parameter \<open>acf\<close>: it gets the velocities of the
  window and the number of channels. The result lists the aggregate of all atoms
  first, then one series per type.
\<close>

definition sequence :: "(failure + 'a) list \<Rightarrow> failure + 'a list" where
  "sequence rs =
     foldr (\<lambda>r acc. case r of Inl f \<Rightarrow> Inl f
                     | Inr x \<Rightarrow> (case acc of Inl f \<Rightarrow> Inl f | Inr xs \<Rightarrow> Inr (x # xs)))
       rs (Inr [])"

definition getVACF ::
  "phys \<Rightarrow> (real list \<Rightarrow> nat \<Rightarrow> failure + real list) \<Rightarrow> histdatamd \<Rightarrow> nat \<Rightarrow> nat
     \<Rightarrow> failure + real list list" where
  "getVACF ph acf s tbegin tend =
     (let ntime_w = usub tend tbegin in
      case slice (velocities s) (tbegin * 3 * natom s)
             (tbegin * 3 * natom s + ntime_w * 3 * natom s) of
        Inl f \<Rightarrow> Inl f
      | Inr window \<Rightarrow>
     (case acf window (3 * natom s) of
        Inl f \<Rightarrow> Inl (ADD f ''VACF calculation failed'' ERRDIV)
      | Inr fullvacf \<Rightarrow>
     (if 3 * natom s = 0 then Inl UndefinedBehaviour
      else
     (let ntau = length fullvacf div (3 * natom s) in
      case ntypat s of Inl f \<Rightarrow> Inl f
      | Inr nt \<Rightarrow>
     (case vacf_tmp fullvacf s ntau of Inl f \<Rightarrow> Inl f
      | Inr tmp \<Rightarrow>
          sequence (map (normalise_type ph tmp nt ntau) [0..<length (znucl s) + 1]))))))"

subsection \<open>Harmonic thermodynamics: \<open>computeThermoFunctionHA\<close>\<close>

text \<open>
  \<open>dtion\<close> in ps and the bin width \<open>domega = 1./(2.*dtion*nfreq)\<close> in THz.
\<close>

definition thermo_dtion :: "phys \<Rightarrow> histdatamd \<Rightarrow> real" where
  "thermo_dtion ph s =
     atu2fs ph * (1 / 10 ^ 3)
       * (if length (time s) > 1 then time s ! 1 - time s ! 0 else 100)"

definition thermo_domega :: "phys \<Rightarrow> histdatamd \<Rightarrow> nat \<Rightarrow> real" where
  "thermo_domega ph s nfreq = 1 / (2 * thermo_dtion ph s * real nfreq)"

text \<open>
  \<open>unsigned(x)\<close> of a double truncates towards zero, and is undefined outside the
  range of \<open>unsigned\<close>.
\<close>

definition unsigned_of :: "real \<Rightarrow> failure + nat" where
  "unsigned_of x =
     (if - 1 < x \<and> x < 2 ^ 32 then Inr (nat \<lfloor>x\<rfloor>) else Inl UndefinedBehaviour)"

definition thermo_nmax :: "phys \<Rightarrow> histdatamd \<Rightarrow> nat \<Rightarrow> real \<Rightarrow> failure + nat" where
  "thermo_nmax ph s nfreq omegaMax =
     (if omegaMax < 0 then Inr nfreq
      else (case unsigned_of (omegaMax / thermo_domega ph s nfreq) of Inl f \<Rightarrow> Inl f
            | Inr n \<Rightarrow> Inr (min n nfreq)))"

text \<open>
  The trapezoidal sum \<open>norme += (pdos[iomega]+pdos[iomega+1])*0.5*domega\<close> over
  \<open>iomega < nmax-1\<close>, for \<open>1 \<le> nmax \<le> pdos.size()\<close>.
\<close>

definition pdos_integral :: "real list \<Rightarrow> nat \<Rightarrow> real \<Rightarrow> real" where
  "pdos_integral pdos nmax domega =
     (\<Sum>iomega\<leftarrow>[0..<nmax - 1]. (pdos ! iomega + pdos ! (iomega + 1)) * (1 / 2) * domega)"

text \<open>
  The renormalisation \<open>pdos[iomega] /= norme\<close> over \<open>iomega < nmax\<close>. A zero \<open>norme\<close>
  leaves an infinity or a NaN in the PDOS.
\<close>

definition renormalise :: "real list \<Rightarrow> nat \<Rightarrow> real \<Rightarrow> failure + real list" where
  "renormalise pdos nmax domega =
     (let norme = pdos_integral pdos nmax domega in
      if norme = 0 then Inl NonFinite
      else Inr (map (\<lambda>x. x / norme) (take nmax pdos) @ drop nmax pdos))"

text \<open>
  The four integrands at the bin \<open>iomega\<close>. With \<open>argument \<le> 0\<close> the logarithm of
  \<open>2.*sinharg\<close> or the quotient \<open>1./tanh(argument)\<close> is not a real number, and
  with \<open>kBT = 0\<close> the argument is not one.
\<close>

definition thermo_omega :: "phys \<Rightarrow> real \<Rightarrow> nat \<Rightarrow> real" where
  "thermo_omega ph domega itime = THz2Ha ph * Ha2eV ph * (real itime + 1 / 2) * domega"

definition thermo_argument :: "phys \<Rightarrow> real \<Rightarrow> real \<Rightarrow> nat \<Rightarrow> real" where
  "thermo_argument ph domega kBT iomega = thermo_omega ph domega iomega * ((1 / 2) / kBT)"

definition thermo_gwdw :: "real list \<Rightarrow> real \<Rightarrow> nat \<Rightarrow> real" where
  "thermo_gwdw pdos domega iomega = (pdos ! iomega + pdos ! (iomega + 1)) * domega * (1 / 2)"

definition thermo_sums :: "phys \<Rightarrow> real list \<Rightarrow> nat \<Rightarrow> real \<Rightarrow> real \<Rightarrow> real \<times> real \<times> real \<times> real" where
  "thermo_sums ph pdos nmax domega kBT =
     (let bins = [0..<nmax - 1];
          arg = thermo_argument ph domega kBT;
          gwdw = thermo_gwdw pdos domega in
      ((\<Sum>i\<leftarrow>bins. ln (2 * sinh (arg i)) * gwdw i) * (3 * kBT),
       (\<Sum>i\<leftarrow>bins. thermo_omega ph domega i * (1 / tanh (arg i)) * gwdw i) * (3 * (1 / 2)),
       (\<Sum>i\<leftarrow>bins. arg i * arg i / (sinh (arg i) * sinh (arg i)) * gwdw i) * 3,
       (\<Sum>i\<leftarrow>bins. (arg i * (1 / tanh (arg i)) - ln (2 * sinh (arg i))) * gwdw i) * 3))"

text \<open>
  \<open>computeThermoFunctionHA(std::vector<double> &pdos, T, omegaMax)\<close>. The PDOS is
  passed by reference and renormalised in place: the model returns it with the four
  functions. \<open>T\<close> is \<open>None\<close> when the caller's mean temperature is a NaN.

  With \<open>nmax = 0\<close> the unsigned bound \<open>nmax-1\<close> of the first loop is \<open>2 ^ 32 - 1\<close>, and
  the loop reads \<open>pdos\<close> past its end; an empty PDOS always has \<open>nmax = 0\<close>.
\<close>

definition computeThermoFunctionHA_pdos ::
  "phys \<Rightarrow> histdatamd \<Rightarrow> real list \<Rightarrow> real option \<Rightarrow> real
     \<Rightarrow> failure + real list \<times> real \<times> real \<times> real \<times> real" where
  "computeThermoFunctionHA_pdos ph s pdos T omegaMax =
     (let nfreq = length pdos in
      if nfreq = 0 then Inl UndefinedBehaviour
      else if thermo_dtion ph s = 0 then Inl NonFinite
      else
     (let domega = thermo_domega ph s nfreq in
      case thermo_nmax ph s nfreq omegaMax of Inl f \<Rightarrow> Inl f
      | Inr nmax \<Rightarrow>
     (if nmax = 0 then Inl UndefinedBehaviour
      else
     (case renormalise pdos nmax domega of Inl f \<Rightarrow> Inl f
      | Inr pdos' \<Rightarrow>
     (case T of None \<Rightarrow> Inl NonFinite
      | Some T' \<Rightarrow>
     (let kBT = kB ph * T' / eV ph in
      if eV ph = 0 then Inl NonFinite
      else if list_ex (\<lambda>i. kBT = 0 \<or> thermo_argument ph domega kBT i \<le> 0) [0..<nmax - 1]
        then Inl NonFinite
      else Inr (pdos', thermo_sums ph pdos' nmax domega kBT)))))))"

text \<open>
  \<open>computeThermoFunctionHA(tbegin, tend, omegaMax)\<close>. \<open>HistData::checkTimes\<close> of the
  base class and \<open>getPDOS\<close>, which rests on the FFTW library, are parameters. The
  handler of the first \<open>try\<close> adds a message and throws again; the handler of the
  second adds a message and ends, and the function goes on with the PDOS it has,
  an empty vector.
\<close>

definition window_mean :: "real list \<Rightarrow> nat \<Rightarrow> nat \<Rightarrow> failure + real option" where
  "window_mean v tbegin tend =
     (case slice v tbegin tend of Inl f \<Rightarrow> Inl f | Inr w \<Rightarrow> Inr (mean w))"

definition computeThermoFunctionHA ::
  "phys \<Rightarrow> (histdatamd \<Rightarrow> nat \<Rightarrow> nat \<Rightarrow> failure + unit)
     \<Rightarrow> (histdatamd \<Rightarrow> nat \<Rightarrow> nat \<Rightarrow> real \<Rightarrow> failure + real list list)
     \<Rightarrow> histdatamd \<Rightarrow> nat \<Rightarrow> nat \<Rightarrow> real
     \<Rightarrow> failure + real list \<times> real \<times> real \<times> real \<times> real" where
  "computeThermoFunctionHA ph checkTimes getPDOS s tbegin tend omegaMax =
     (case checkTimes s tbegin tend of
        Inl f \<Rightarrow> Inl (ADD f ''Thermodynamics calculations aborted'' ERRDIV)
      | Inr u \<Rightarrow>
     (case (case getPDOS s tbegin tend 0 of
              Inr pdosfull \<Rightarrow>
                (case pdosfull of [] \<Rightarrow> Inl UndefinedBehaviour | p # ps \<Rightarrow> Inr p)
            | Inl (Exception stack) \<Rightarrow> Inr []
            | Inl f \<Rightarrow> Inl f) of
        Inl f \<Rightarrow> Inl f
      | Inr pdos \<Rightarrow>
     (case window_mean (temperature s) tbegin tend of Inl f \<Rightarrow> Inl f
      | Inr T \<Rightarrow> computeThermoFunctionHA_pdos ph s pdos T omegaMax)))"

text \<open>
  \<open>getPDOS\<close> as the source compiles it without \<open>HAVE_FFTW3\<close>: the \<open>throw\<close> is its
  whole body.
\<close>

definition getPDOS_without_FFTW3 ::
  "histdatamd \<Rightarrow> nat \<Rightarrow> nat \<Rightarrow> real \<Rightarrow> failure + real list list" where
  "getPDOS_without_FFTW3 s tbegin tend tsmear =
     Inl (Exception [(''FFTW3 is needed to compute the PDOS'', ERRDIV)])"

subsection \<open>The invariant of the data model\<close>

text \<open>
  The spec's invariant of a store: every per-timestep series has one entry per
  recorded frame, and the velocities one entry per frame, atom and direction. The
  merge also accepts a store without velocities.
\<close>

definition series_sized :: "histdatamd \<Rightarrow> bool" where
  "series_sized s =
     (length (time s) = ntime s \<and> length (ekin s) = ntime s
      \<and> length (temperature s) = ntime s \<and> length (pressure s) = ntime s
      \<and> length (entropy s) = ntime s)"

definition store_ok :: "histdatamd \<Rightarrow> bool" where
  "store_ok s = (series_sized s \<and> length (velocities s) = 3 * natom s * ntime s)"

text \<open>
  The spec's wording of the time-step check, "a relative mismatch beyond a small
  tolerance (1e-6)": the difference of the two spacings relative to the base's.
\<close>

definition spec_relative_mismatch :: "real \<Rightarrow> real \<Rightarrow> real" where
  "spec_relative_mismatch dt1 dt2 = \<bar>dt1 - dt2\<bar> / \<bar>dt1\<bar>"

subsection \<open>Notions used in the proofs about the merge\<close>

text \<open>
  The permuted copy writes the cells after \<open>start\<close> in increasing order; \<open>written\<close>
  says that the first \<open>p\<close> of them hold their final value and that the vector is
  unchanged before \<open>start\<close>.
\<close>

definition reordered_src :: "nat list \<Rightarrow> real list \<Rightarrow> nat \<Rightarrow> nat \<Rightarrow> real" where
  "reordered_src order hv n q =
     hv ! ((q div (3 * n)) * 3 * n + order ! ((q mod (3 * n)) div 3) * 3 + q mod 3)"

definition written :: "nat list \<Rightarrow> real list \<Rightarrow> nat \<Rightarrow> nat \<Rightarrow> real list \<Rightarrow> nat \<Rightarrow> real list \<Rightarrow> bool" where
  "written order hv start n v0 p v =
     (length v = length v0
      \<and> (\<forall>q < p. v ! (start + q) = reordered_src order hv n q)
      \<and> (\<forall>j < start. v ! j = v0 ! j))"

text \<open>An outcome of the matching routine that the merge can use for \<open>n\<close> atoms.\<close>

definition order_ok :: "nat \<Rightarrow> failure + nat list \<Rightarrow> bool" where
  "order_ok n res =
     (case res of
        Inr order \<Rightarrow> length order = n \<and> list_all (\<lambda>oi. oi < n) order
      | Inl (Exception stack) \<Rightarrow> True
      | Inl f \<Rightarrow> False)"

text \<open>
  The difference of the two frame spacings, the series of a merge of two well-sized
  stores, and what such a merge prints.
\<close>

definition absolute_mismatch :: "histdatamd \<Rightarrow> histdatamd \<Rightarrow> real" where
  "absolute_mismatch s h = \<bar>(time s ! 1 - time s ! 0) - (time h ! 1 - time h ! 0)\<bar>"

definition merged_series :: "histdatamd \<Rightarrow> histdatamd \<Rightarrow> histdatamd" where
  "merged_series s h =
     s\<lparr> ntime := ntime s + ntime h, ntimeAvail := ntime s + ntime h,
        time := time s @ time h, ekin := ekin s @ ekin h,
        temperature := temperature s @ temperature h,
        pressure := pressure s @ pressure h \<rparr>"

definition merge_printed :: "histdatamd \<Rightarrow> histdatamd \<Rightarrow> (string \<times> errcode) list" where
  "merge_printed s h =
     (if 1 < ntime s \<and> 1 < ntime h \<and> absolute_mismatch s h > 1 / 10 ^ 6
      then [dtion_warning] else [])
     @ (if very_different (mean (temperature s)) (mean (temperature h))
        then [temperature_warning] else [])
     @ (if very_different (mean (pressure s)) (mean (pressure h))
        then [pressure_warning] else [])"

subsection \<open>Notions used in the proofs about the autocorrelation\<close>

text \<open>
  The number of atoms of a type, the spec's "atom count of that species", and the
  well-formedness of the table of types: one entry per atom, each the 1-based index
  of a species.
\<close>

definition atoms_of_type :: "histdatamd \<Rightarrow> nat \<Rightarrow> nat" where
  "atoms_of_type s t = length (filter (\<lambda>i. typat s ! i = t) [0..<natom s])"

definition typat_ok :: "histdatamd \<Rightarrow> bool" where
  "typat_ok s =
     (natom s \<le> length (typat s)
      \<and> list_all (\<lambda>i. 1 \<le> typat s ! i \<and> typat s ! i \<le> length (znucl s)) [0..<natom s])"

text \<open>
  A row of the aggregation holds the sum over all atoms in front and the sums per
  type behind it; it is balanced when the first entry is the sum of the others.
\<close>

definition balanced :: "nat \<Rightarrow> real list \<Rightarrow> bool" where
  "balanced n row = (length row = n \<and> sum_list row = 2 * row ! 0)"

subsection \<open>Notions used in the proofs about the interpolation\<close>

text \<open>
  The five series seen as \<open>4 + w\<close> channels of one value per frame, \<open>w\<close> being the
  number of velocity components of a frame: the kinetic energy, the temperature,
  the pressure, the entropy, and one channel per velocity component. The same for
  the values of the last frame of a segment.
\<close>

definition channel :: "nat \<Rightarrow> histdatamd \<Rightarrow> nat \<Rightarrow> nat \<Rightarrow> real" where
  "channel w s ch i =
     (if ch = 0 then ekin s ! i else if ch = 1 then temperature s ! i
      else if ch = 2 then pressure s ! i else if ch = 3 then entropy s ! i
      else velocities s ! (w * i + (ch - 4)))"

definition channel_last :: "last_frame \<Rightarrow> nat \<Rightarrow> real" where
  "channel_last l ch =
     (if ch = 0 then ekinLast l else if ch = 1 then temperatureLast l
      else if ch = 2 then pressureLast l else if ch = 3 then entropyLast l
      else velocitiesLast l ! (ch - 4))"

text \<open>
  The sizes that \<open>interpolate\<close> gives the series for \<open>N\<close> frames, the store it
  starts its loop with, and the fields of the base class that its loop leaves alone.
\<close>

definition sized :: "nat \<Rightarrow> nat \<Rightarrow> histdatamd \<Rightarrow> bool" where
  "sized w N s =
     (length (velocities s) = w * N \<and> length (ekin s) = w * N
      \<and> length (temperature s) = xyz * N \<and> length (pressure s) = xyz * xyz * N
      \<and> length (entropy s) = N)"

definition resized :: "nat \<Rightarrow> histdatamd \<Rightarrow> histdatamd" where
  "resized N s =
     s\<lparr> velocities := resize (3 * natom s * N) (velocities s),
        ekin := resize (3 * natom s * N) (ekin s),
        temperature := resize (xyz * N) (temperature s),
        pressure := resize (xyz * xyz * N) (pressure s),
        entropy := resize N (entropy s) \<rparr>"

definition same_base :: "histdatamd \<Rightarrow> histdatamd \<Rightarrow> bool" where
  "same_base s s' = (ntime s' = ntime s \<and> natom s' = natom s \<and> time s' = time s)"

text \<open>
  With the amplitude 1 the segments are \<open>m = ninter - 1\<close> frames apart. Before the
  segment \<open>k\<close> is written, the frames up to \<open>k\<close> still hold the recorded values and
  the recorded frame \<open>j > k\<close> is found at \<open>m * j\<close>; \<open>inner\<close> is the same after
  \<open>t\<close> frames of the segment \<open>k\<close>.
\<close>

definition kept :: "(nat \<Rightarrow> real) \<Rightarrow> nat \<Rightarrow> nat \<Rightarrow> nat \<Rightarrow> (nat \<Rightarrow> real) \<Rightarrow> bool" where
  "kept orig n m k g =
     ((\<forall>i \<le> k. g i = orig i) \<and> (\<forall>j. k < j \<and> j < n \<longrightarrow> g (m * j) = orig j))"

definition inner :: "(nat \<Rightarrow> real) \<Rightarrow> nat \<Rightarrow> nat \<Rightarrow> nat \<Rightarrow> nat \<Rightarrow> (nat \<Rightarrow> real) \<Rightarrow> bool" where
  "inner orig n m k t g =
     ((\<forall>i < k. g i = orig i) \<and> (\<forall>j. k < j \<and> j < n \<longrightarrow> g (m * j) = orig j)
      \<and> (0 < t \<longrightarrow> g (m * k) = orig k))"

text \<open>
  The distance between the first frames of two segments, and how far the counter
  \<open>currentTime\<close> is behind the first frame of a segment when the segment is done.
\<close>

definition stride :: "nat \<Rightarrow> real \<Rightarrow> nat" where
  "stride ninter amplitude = (if removeDuplica amplitude then ninter - 1 else ninter)"

definition lag :: "real \<Rightarrow> nat" where
  "lag amplitude = (if removeDuplica amplitude then 0 else 1)"

subsection \<open>Example stores\<close>

text \<open>
  A store as the constructor \<open>HistDataMD(const HistData&)\<close> leaves it when one frame
  is filled and two are reserved: every scalar series has \<open>_ntimeAvail = 2\<close> entries.
\<close>

definition reserved_store :: histdatamd where
  "reserved_store =
     \<lparr> ntime = 1, ntimeAvail = 2, natom = 1, typat = [1], znucl = [1], time = [0, 0],
       tryToMap = False, ekin = [5, 0], velocities = [1, 2, 3, 0, 0, 0],
       temperature = [300, 0], pressure = [7, 0], entropy = [0, 0] \<rparr>"

text \<open>Two segments of one frame each, of one atom.\<close>

definition segment_a :: histdatamd where
  "segment_a =
     \<lparr> ntime = 1, ntimeAvail = 1, natom = 1, typat = [1], znucl = [1], time = [0],
       tryToMap = False, ekin = [1], velocities = [1, 2, 3],
       temperature = [300], pressure = [7], entropy = [4] \<rparr>"

definition segment_b :: histdatamd where
  "segment_b =
     \<lparr> ntime = 1, ntimeAvail = 1, natom = 1, typat = [1], znucl = [1], time = [100],
       tryToMap = False, ekin = [2], velocities = [4, 5, 6],
       temperature = [310], pressure = [8], entropy = [9] \<rparr>"

text \<open>
  Two segments of two frames each, 100 and 100.00001 atomic units of time apart.
\<close>

definition spaced_a :: histdatamd where
  "spaced_a =
     \<lparr> ntime = 2, ntimeAvail = 2, natom = 1, typat = [1], znucl = [1], time = [0, 100],
       tryToMap = False, ekin = [1, 2], velocities = [1, 2, 3, 4, 5, 6],
       temperature = [300, 310], pressure = [7, 8], entropy = [4, 9] \<rparr>"

definition spaced_b :: histdatamd where
  "spaced_b =
     \<lparr> ntime = 2, ntimeAvail = 2, natom = 1, typat = [1], znucl = [1],
       time = [200, 300 + 1 / 10 ^ 5],
       tryToMap = False, ekin = [3, 4], velocities = [7, 8, 9, 10, 11, 12],
       temperature = [305, 315], pressure = [7, 9], entropy = [5, 6] \<rparr>"

text \<open>
  Two segments of one frame each, of two atoms, which the merge tries to map.
\<close>

definition pair_a :: histdatamd where
  "pair_a =
     \<lparr> ntime = 1, ntimeAvail = 1, natom = 2, typat = [1, 2], znucl = [1, 8], time = [0],
       tryToMap = True, ekin = [1], velocities = [1, 2, 3, 4, 5, 6],
       temperature = [300], pressure = [7], entropy = [4] \<rparr>"

definition pair_b :: histdatamd where
  "pair_b =
     \<lparr> ntime = 1, ntimeAvail = 1, natom = 2, typat = [2, 1], znucl = [1, 8], time = [100],
       tryToMap = True, ekin = [2], velocities = [14, 15, 16, 11, 12, 13],
       temperature = [310], pressure = [8], entropy = [9] \<rparr>"

text \<open>An atom order for stores the merge does not try to map.\<close>

definition reorder_identity :: "histdatamd \<Rightarrow> histdatamd \<Rightarrow> failure + nat list" where
  "reorder_identity s h = Inr [0..<natom s]"

text \<open>An autocorrelation primitive for the examples: the square of each channel.\<close>

definition acf_products :: "real list \<Rightarrow> nat \<Rightarrow> failure + real list" where
  "acf_products w howmany = Inr (map (\<lambda>x. x * x) w)"

text \<open>Constants and a base-class check that passes, for the examples.\<close>

definition unit_phys :: phys where
  "unit_phys = \<lparr> b2A = 1, atu2fs = 1, THz2Ha = 1, Ha2eV = 1, kB = 1, eV = 1 \<rparr>"

definition checkTimes_passes :: "histdatamd \<Rightarrow> nat \<Rightarrow> nat \<Rightarrow> failure + unit" where
  "checkTimes_passes s tbegin tend = Inr ()"

section \<open>Accessors at the first index outside the recorded range\<close>

lemma accessor_no_exception_at_ntime:
  "getEkin s (ntime s) \<noteq> Inl (Exception m)"
  "getTemperature s (ntime s) \<noteq> Inl (Exception m)"
  "getPressure s (ntime s) \<noteq> Inl (Exception m)"
  "getVel s (ntime s) \<noteq> Inl (Exception m)"
  by (simp_all add: getEkin_def getTemperature_def getPressure_def getVel_def vec_at_def)

lemma accessor_beyond_ntime:
  assumes "ntime s < t"
  shows "getEkin s t = Inl (Exception [(''Out of range for ekin '' @ to_string t @ ''/''
                                          @ to_string (ntime s), ERRDIV)])"
    and "getTemperature s t = Inl (Exception [(''Out of range for temperature'' @ to_string t
                                          @ ''/'' @ to_string (ntime s), ERRDIV)])"
    and "getPressure s t = Inl (Exception [(''Out of range for pressure'' @ to_string t
                                          @ ''/'' @ to_string (ntime s), ERRDIV)])"
    and "getVel s t = Inl (Exception [(''Out of range for velocities '' @ to_string t @ ''/''
                                          @ to_string (ntime s), ERRDIV)])"
  using assms by (simp_all add: getEkin_def getTemperature_def getPressure_def getVel_def)

lemma accessor_inside:
  assumes "t < ntime s" "store_ok s"
  shows "getEkin s t = Inr (ekin s ! t)"
    and "getTemperature s t = Inr (temperature s ! t)"
    and "getPressure s t = Inr (pressure s ! t)"
  using assms
  by (simp_all add: getEkin_def getTemperature_def getPressure_def vec_at_def store_ok_def
      series_sized_def)

text \<open>
  Claim C3. The claim asks for a lookup failure at every index \<open>\<ge> ntime\<close>. The
  accessors test \<open>time > _ntime\<close>, so at the index \<open>ntime\<close> itself no failure is
  reported: on a store with one filled frame and two reserved ones each accessor
  returns, at index 1, the content of the reserved slot.
\<close>

theorem accessors_at_ntime_return_value:
  "getEkin reserved_store 1 = Inr 0
   \<and> getTemperature reserved_store 1 = Inr 0
   \<and> getPressure reserved_store 1 = Inr 0
   \<and> getVel reserved_store 1 = Inr [0, 0, 0]"
  by (simp add: getEkin_def getTemperature_def getPressure_def getVel_def vec_at_def
      reserved_store_def)

section \<open>The merge\<close>

subsection \<open>Loops and the permuted copy\<close>


lemma for_loop_0: "for_loop 0 body a = Inr a"
  by (simp add: for_loop_def)

lemma for_loop_Suc:
  "for_loop (Suc n) body a =
     (case for_loop n body a of Inl f \<Rightarrow> Inl f | Inr x \<Rightarrow> body n x)"
  by (simp add: for_loop_def)

lemma for_loop_rule:
  assumes "P 0 a"
    and "\<And>i x. i < n \<Longrightarrow> P i x \<Longrightarrow> \<exists>y. body i x = Inr y \<and> P (Suc i) y"
  shows "\<exists>y. for_loop n body a = Inr y \<and> P n y"
  using assms(2)
proof (induction n)
  case 0
  then show ?case using assms(1) by (simp add: for_loop_0)
next
  case (Suc n)
  have "\<exists>y. for_loop n body a = Inr y \<and> P n y"
    using Suc.IH Suc.prems by (meson less_Suc_eq)
  then obtain x where x: "for_loop n body a = Inr x" "P n x" by blast
  from Suc.prems [of n x] x(2) obtain y where "body n x = Inr y" "P (Suc n) y" by blast
  then show ?case using x(1) by (simp add: for_loop_Suc)
qed

lemma reordered_src_at:
  assumes "iatom < n" "c < 3"
  shows "reordered_src order hv n (itime * 3 * n + iatom * 3 + c)
         = hv ! (itime * 3 * n + order ! iatom * 3 + c)"
proof -
  let ?r = "iatom * 3 + c"
  have r: "?r < 3 * n" using assms by simp
  have q: "itime * 3 * n + iatom * 3 + c = ?r + itime * (3 * n)" by simp
  have d: "(?r + itime * (3 * n)) div (3 * n) = itime" using r by simp
  have m: "(?r + itime * (3 * n)) mod (3 * n) = ?r" using r by simp
  have d3: "?r div 3 = iatom" using assms by simp
  have m3: "(?r + itime * (3 * n)) mod 3 = c"
  proof -
    have "(?r + itime * (3 * n)) = c + 3 * (iatom + itime * n)" by simp
    then show ?thesis using assms(2) by (metis mod_mult_self2 mod_less)
  qed
  show ?thesis unfolding reordered_src_def q d m d3 m3 by simp
qed

lemma copy_component_step:
  assumes w: "written order hv start n v0 (itime * 3 * n + iatom * 3 + c) v"
    and "iatom < n" "c < 3" "itime < hn"
    and ord: "length order = n" "list_all (\<lambda>oi. oi < n) order"
    and hv: "length hv = 3 * n * hn"
    and L: "length v0 = start + 3 * n * hn"
  shows "\<exists>v'. copy_component order hv start n itime iatom c v = Inr v'
            \<and> written order hv start n v0 (itime * 3 * n + iatom * 3 + Suc c) v'"
proof -
  have oi: "order ! iatom < n" using ord assms(2) by (simp add: list_all_length)
  have "itime * 3 * n + order ! iatom * 3 + c < itime * (3 * n) + 3 * n"
    using oi assms(3) by simp
  also have "\<dots> = (Suc itime) * (3 * n)" by simp
  also have "\<dots> \<le> hn * (3 * n)" using assms(4) by (intro mult_le_mono1) simp
  finally have src: "itime * 3 * n + order ! iatom * 3 + c < length hv" using hv by (simp add: mult.commute)
  have "itime * 3 * n + iatom * 3 + c < itime * (3 * n) + 3 * n"
    using assms(2,3) by simp
  also have "\<dots> = (Suc itime) * (3 * n)" by simp
  also have "\<dots> \<le> hn * (3 * n)" using assms(4) by (intro mult_le_mono1) simp
  finally have dst: "start + itime * 3 * n + iatom * 3 + c < length v"
    using w L by (simp add: written_def mult.commute)
  let ?p = "itime * 3 * n + iatom * 3 + c"
  let ?v' = "v[start + ?p := hv ! (itime * 3 * n + order ! iatom * 3 + c)]"
  have e: "copy_component order hv start n itime iatom c v = Inr ?v'"
    using src dst ord(1) assms(2) by (simp add: copy_component_def vec_at_def add.assoc)
  have "written order hv start n v0 (Suc ?p) ?v'"
    unfolding written_def
  proof (intro conjI allI impI)
    show "length ?v' = length v0" using w by (simp add: written_def)
  next
    fix q assume "q < Suc ?p"
    show "?v' ! (start + q) = reordered_src order hv n q"
    proof (cases "q = ?p")
      case True
      then show ?thesis using dst reordered_src_at [OF assms(2,3), of order hv itime]
        by (simp add: add.assoc)
    next
      case False
      then have "q < ?p" using \<open>q < Suc ?p\<close> by simp
      then show ?thesis using w False by (simp add: written_def)
    qed
  next
    fix j assume "j < start"
    then show "?v' ! j = v0 ! j" using w by (simp add: written_def)
  qed
  then show ?thesis using e by simp
qed

lemma copy_reordered_ok:
  assumes ord: "length order = n" "list_all (\<lambda>oi. oi < n) order"
    and hv: "length hv = 3 * n * hn"
    and L: "length v0 = start + 3 * n * hn"
  shows "\<exists>v. copy_reordered order hv start n hn v0 = Inr v
           \<and> written order hv start n v0 (hn * 3 * n) v"
  unfolding copy_reordered_def
proof (rule for_loop_rule [where P = "\<lambda>itime. written order hv start n v0 (itime * 3 * n)"])
  show "written order hv start n v0 (0 * 3 * n) v0" by (simp add: written_def)
next
  fix itime v assume it: "itime < hn" and w: "written order hv start n v0 (itime * 3 * n) v"
  have "\<exists>y. for_loop n (\<lambda>iatom. for_loop 3 (copy_component order hv start n itime iatom)) v = Inr y
          \<and> written order hv start n v0 (itime * 3 * n + n * 3) y"
  proof (rule for_loop_rule [where P = "\<lambda>iatom. written order hv start n v0 (itime * 3 * n + iatom * 3)"])
    show "written order hv start n v0 (itime * 3 * n + 0 * 3) v" using w by simp
  next
    fix iatom x assume ia: "iatom < n"
      and wx: "written order hv start n v0 (itime * 3 * n + iatom * 3) x"
    have "\<exists>y. for_loop 3 (copy_component order hv start n itime iatom) x = Inr y
            \<and> written order hv start n v0 (itime * 3 * n + iatom * 3 + 3) y"
    proof (rule for_loop_rule [where P = "\<lambda>c. written order hv start n v0 (itime * 3 * n + iatom * 3 + c)"])
      show "written order hv start n v0 (itime * 3 * n + iatom * 3 + 0) x" using wx by simp
    next
      fix c z assume "c < 3" "written order hv start n v0 (itime * 3 * n + iatom * 3 + c) z"
      then show "\<exists>y. copy_component order hv start n itime iatom c z = Inr y
                   \<and> written order hv start n v0 (itime * 3 * n + iatom * 3 + Suc c) y"
        using copy_component_step [OF _ ia _ it ord hv L] by blast
    qed
    moreover have "itime * 3 * n + Suc iatom * 3 = itime * 3 * n + iatom * 3 + 3" by simp
    ultimately show "\<exists>y. for_loop 3 (copy_component order hv start n itime iatom) x = Inr y
                 \<and> written order hv start n v0 (itime * 3 * n + Suc iatom * 3) y"
      by (simp only:)
  qed
  moreover have "Suc itime * 3 * n = itime * 3 * n + n * 3" by (simp add: algebra_simps)
  ultimately show "\<exists>y. for_loop n (\<lambda>iatom. for_loop 3 (copy_component order hv start n itime iatom)) v = Inr y
               \<and> written order hv start n v0 (Suc itime * 3 * n) y"
    by (simp only:)
qed

lemma resize_grow: "length a = p \<Longrightarrow> resize (p + q) a = a @ replicate q 0"
  by (simp add: resize_def)

lemma resize_same: "length a = p \<Longrightarrow> resize p a = a"
  by (simp add: resize_def)

lemma copy_into_appended:
  "length a = p \<Longrightarrow> length b = q \<Longrightarrow> copy_into b (a @ replicate q 0) p = Inr (a @ b)"
  by (simp add: copy_into_def)

lemma copy_into_again:
  "length a = p \<Longrightarrow> copy_into b (a @ b) p = Inr (a @ b)"
  by (simp add: copy_into_def)

lemma check_dtion_ok:
  assumes "length (time s) = ntime s" "length (time h) = ntime h"
  shows "check_dtion s h =
           Inr (if 1 < ntime s \<and> 1 < ntime h \<and> absolute_mismatch s h > 1 / 10 ^ 6
                then [dtion_warning] else [])"
  using assms by (simp add: check_dtion_def frame_spacing_def vec_at_def absolute_mismatch_def)

lemma find_order_cases:
  assumes "order_ok n (reorder x y)"
  shows "find_order reorder x y = Inr ([], False)
       \<or> (\<exists>order. tryToMap x \<and> reorder x y = Inr order \<and> length order = n
             \<and> list_all (\<lambda>oi. oi < n) order
             \<and> find_order reorder x y
                = Inr (order, list_ex (\<lambda>i. i \<noteq> order ! i) [0..<length order]))"
  using assms
  by (auto simp: find_order_def order_ok_def split: sum.splits failure.splits)

lemma merge_velocities_direct:
  assumes "length (velocities x) = 3 * natom x * p" "length (velocities y) = 3 * natom x * q"
    "ntime x = p + q"
  shows "merge_velocities order False p x y = Inr (velocities x @ velocities y)"
proof -
  have sz: "ntime x * natom x * xyz = 3 * natom x * p + 3 * natom x * q"
    using assms(3) by (simp add: xyz_def algebra_simps)
  have st: "p * natom x * xyz = 3 * natom x * p" by (simp add: xyz_def)
  show ?thesis
    unfolding merge_velocities_def Let_def sz st
    using assms(1,2) by (simp add: resize_grow copy_into_appended)
qed

lemma merge_velocities_reordered:
  assumes "length (velocities x) = 3 * natom x * p" "length (velocities y) = 3 * natom x * q"
    "ntime x = p + q" "ntime y = q"
    and ord: "length order = natom x" "list_all (\<lambda>oi. oi < natom x) order"
  shows "\<exists>v. merge_velocities order True p x y = Inr v
           \<and> length v = 3 * natom x * (p + q)
           \<and> take (3 * natom x * p) v = velocities x
           \<and> (\<forall>itime < q. \<forall>iatom < natom x. \<forall>c < 3.
                v ! (3 * natom x * p + itime * 3 * natom x + iatom * 3 + c)
                  = velocities y ! (itime * 3 * natom x + order ! iatom * 3 + c))"
proof -
  let ?n = "natom x"
  let ?start = "3 * ?n * p"
  let ?v0 = "velocities x @ replicate (3 * ?n * q) 0"
  have sz: "ntime x * ?n * xyz = ?start + 3 * ?n * q"
    using assms(3) by (simp add: xyz_def algebra_simps)
  have st: "p * ?n * xyz = ?start" by (simp add: xyz_def)
  have m: "merge_velocities order True p x y
             = copy_reordered order (velocities y) ?start ?n q ?v0"
    unfolding merge_velocities_def Let_def sz st
    using assms(1,4) by (simp add: resize_grow)
  have L: "length ?v0 = ?start + 3 * ?n * q" using assms(1) by simp
  from copy_reordered_ok [OF ord assms(2) L]
  obtain v where v: "copy_reordered order (velocities y) ?start ?n q ?v0 = Inr v"
    and w: "written order (velocities y) ?start ?n ?v0 (q * 3 * ?n) v" by blast
  have len: "length v = 3 * ?n * (p + q)" using w L by (simp add: written_def algebra_simps)
  have pre: "take ?start v = velocities x"
  proof (rule nth_equalityI)
    show "length (take ?start v) = length (velocities x)" using len assms(1) by simp
  next
    fix i assume "i < length (take ?start v)"
    then have i: "i < ?start" by simp
    then have "v ! i = ?v0 ! i" using w by (simp add: written_def)
    then show "take ?start v ! i = velocities x ! i" using i assms(1) by (simp add: nth_append)
  qed
  have cells: "\<forall>itime < q. \<forall>iatom < ?n. \<forall>c < 3.
                v ! (?start + itime * 3 * ?n + iatom * 3 + c)
                  = velocities y ! (itime * 3 * ?n + order ! iatom * 3 + c)"
  proof (intro allI impI)
    fix itime iatom c assume a: "itime < q" "iatom < ?n" "c < (3::nat)"
    have "itime * 3 * ?n + iatom * 3 + c < itime * (3 * ?n) + 3 * ?n" using a by simp
    also have "\<dots> = Suc itime * (3 * ?n)" by simp
    also have "\<dots> \<le> q * (3 * ?n)" using a(1) by (intro mult_le_mono1) simp
    finally have "itime * 3 * ?n + iatom * 3 + c < q * 3 * ?n" by (simp add: mult.assoc)
    then have "v ! (?start + (itime * 3 * ?n + iatom * 3 + c))
                 = reordered_src order (velocities y) ?n (itime * 3 * ?n + iatom * 3 + c)"
      using w by (simp add: written_def)
    then show "v ! (?start + itime * 3 * ?n + iatom * 3 + c)
                  = velocities y ! (itime * 3 * ?n + order ! iatom * 3 + c)"
      using reordered_src_at [OF a(2,3)] by (simp add: add.assoc)
  qed
  show ?thesis using m v len pre cells by simp
qed

lemma prepare_velocities_same:
  "(velocities x = []) = (velocities y = []) \<Longrightarrow>
     prepare_velocities p x y = (x, y, velocities x \<noteq> [])"
  by (auto simp: prepare_velocities_def Let_def)

lemma merge_ekin_ok:
  "length (ekin x) = p \<Longrightarrow> length (ekin y) = q \<Longrightarrow> ntime x = p + q \<Longrightarrow>
     merge_ekin p y x = Inr (x\<lparr>ekin := ekin x @ ekin y\<rparr>)"
  by (simp add: merge_ekin_def resize_grow copy_into_appended)

lemma merge_temperature_ok:
  "length (temperature x) = p \<Longrightarrow> length (temperature y) = q \<Longrightarrow> ntime x = p + q \<Longrightarrow>
     merge_temperature p y x = Inr (x\<lparr>temperature := temperature x @ temperature y\<rparr>)"
  by (simp add: merge_temperature_def resize_grow copy_into_appended)

lemma merge_pressure_ok:
  "length (pressure x) = p \<Longrightarrow> length (pressure y) = q \<Longrightarrow> ntime x = p + q \<Longrightarrow>
     merge_pressure p y x = Inr (x\<lparr>pressure := pressure x @ pressure y\<rparr>)"
  by (simp add: merge_pressure_def resize_grow copy_into_appended)

lemma merge_entropy_ok:
  "length (entropy x) = p \<Longrightarrow> ekin x = e @ ekin y \<Longrightarrow> length e = p \<Longrightarrow> ntime x = p + q \<Longrightarrow>
     merge_entropy p y x = Inr (x\<lparr>entropy := entropy x @ replicate q 0\<rparr>)"
  by (simp add: merge_entropy_def Let_def resize_grow copy_into_again)

lemma add_md_result:
  assumes s: "series_sized s" and h: "series_sized h"
    and v: "(velocities s = []) = (velocities h = [])"
    and fo: "find_order reorder ((merged_series s h)\<lparr>pressure := pressure s\<rparr>) h = Inr ob"
    and mv: "merge_velocity_block (velocities s \<noteq> []) (fst ob) (snd ob) (ntime s) h
               (merged_series s h) = Inr s6"
    and s6: "ntime s6 = ntime s + ntime h" "entropy s6 = entropy s"
      "ekin s6 = ekin s @ ekin h"
  shows "add_md reorder s h =
            Inr \<lparr> base = s6\<lparr> entropy := entropy s @ replicate (ntime h) 0 \<rparr>,
                   appended = h, printed = merge_printed s h \<rparr>"
proof -
  let ?p = "ntime s" and ?q = "ntime h"
  have l: "length (time s) = ?p" "length (ekin s) = ?p"
    "length (temperature s) = ?p" "length (pressure s) = ?p"
    "length (entropy s) = ?p"
    "length (time h) = ?q" "length (ekin h) = ?q"
    "length (temperature h) = ?q" "length (pressure h) = ?q"
    using s h by (simp_all add: series_sized_def)
  have cd: "check_dtion s h =
           Inr (if 1 < ?p \<and> 1 < ?q \<and> absolute_mismatch s h > 1 / 10 ^ 6
                then [dtion_warning] else [])"
    using l by (intro check_dtion_ok) simp_all
  define s1 where "s1 = HistData_add s h"
  have s1: "ntime s1 = ?p + ?q" "ekin s1 = ekin s" "temperature s1 = temperature s"
    "pressure s1 = pressure s" "velocities s1 = velocities s"
    by (simp_all add: s1_def HistData_add_def)
  have prep: "prepare_velocities ?p s1 h = (s1, h, velocities s \<noteq> [])"
    using prepare_velocities_same [of s1 h ?p] v s1(5) by simp
  define s3 where "s3 = s1\<lparr>ekin := ekin s @ ekin h\<rparr>"
  have e3: "merge_ekin ?p h s1 = Inr s3"
    using merge_ekin_ok [of s1 ?p h ?q] l s1 by (simp add: s3_def)
  define s4 where "s4 = s3\<lparr>temperature := temperature s @ temperature h\<rparr>"
  have e4: "merge_temperature ?p h s3 = Inr s4"
    using merge_temperature_ok [of s3 ?p h ?q] l s1 by (simp add: s3_def s4_def)
  define s5 where "s5 = s4\<lparr>pressure := pressure s @ pressure h\<rparr>"
  have e5: "merge_pressure ?p h s4 = Inr s5"
    using merge_pressure_ok [of s4 ?p h ?q] l s1 by (simp add: s3_def s4_def s5_def)
  have m4: "s4 = (merged_series s h)\<lparr>pressure := pressure s\<rparr>"
    using l by (simp add: s4_def s3_def s1_def HistData_add_def merged_series_def resize_same)
  have m5: "s5 = merged_series s h"
    using l by (simp add: s5_def s4_def s3_def s1_def HistData_add_def merged_series_def resize_same)
  have e7: "merge_entropy ?p h s6 = Inr (s6\<lparr>entropy := entropy s @ replicate ?q 0\<rparr>)"
    using merge_entropy_ok [of s6 ?p "ekin s" h ?q] s6 l by simp
  have w2: "check_temperature s3 h = (if very_different (mean (temperature s)) (mean (temperature h))
        then [temperature_warning] else [])"
    by (simp add: check_temperature_def s3_def s1)
  have w3: "check_pressure s4 h = (if very_different (mean (pressure s)) (mean (pressure h))
        then [pressure_warning] else [])"
    by (simp add: check_pressure_def s4_def s3_def s1)
  define w1 where "w1 = (if 1 < ?p \<and> 1 < ?q \<and> absolute_mismatch s h > 1 / 10 ^ 6
                then [dtion_warning] else [])"
  have cd': "check_dtion s h = Inr w1" using cd by (simp add: w1_def)
  have fo': "find_order reorder s4 h = Inr ob" using fo m4 by simp
  have mv': "merge_velocity_block (velocities s \<noteq> []) (fst ob) (snd ob) ?p h s5 = Inr s6"
    using mv m5 by simp
  have t: "(length (temperature s) = ntime s) = True" using l by simp
  have "add_md reorder s h =
          Inr \<lparr> base = s6\<lparr>entropy := entropy s @ replicate ?q 0\<rparr>, appended = h,
                 printed = w1 @ check_temperature s3 h @ check_pressure s4 h \<rparr>"
    unfolding add_md_def Let_def
    by (simp only: l(3) refl if_True cd' sum.case s1_def [symmetric] prep fst_conv snd_conv
        e3 e4 e5 e7 fo' mv')
  then show ?thesis by (simp add: w1_def w2 w3 merge_printed_def)
qed

lemma moved_iff: "list_ex (\<lambda>i. i \<noteq> order ! i) [0..<length order] \<longleftrightarrow> order \<noteq> [0..<length order]"
proof -
  have "order = [0..<length order] \<longleftrightarrow> (\<forall>i < length order. order ! i = i)"
    using list_eq_iff_nth_eq [of order "[0..<length order]"] by simp
  then show ?thesis by (simp add: list_ex_iff) (metis atLeastLessThan_iff zero_le)
qed

lemma store_ok_velocities:
  assumes "store_ok s" "store_ok h" "natom h = natom s" "1 \<le> natom s" "1 \<le> ntime s" "1 \<le> ntime h"
  shows "velocities s \<noteq> []" "velocities h \<noteq> []"
  using assms by (auto simp: store_ok_def)


subsection \<open>Velocities of the appended segment\<close>

text \<open>
  Claim C6. Two stores that satisfy the invariant of the data model, of the same
  atoms, with at least one atom and one frame each, are merged with the atom order
  \<open>order\<close> that the matching routine returns. The base's velocities stay in front.
  When the merge tries to map and \<open>order\<close> moves some atom, the velocity of atom
  \<open>iatom\<close>, component \<open>c\<close>, in the appended frame \<open>itime\<close> is the appended store's
  velocity of atom \<open>order ! iatom\<close>, component \<open>c\<close>, in that frame. Otherwise the
  appended store's velocities follow the base's as they are.
\<close>

theorem merge_velocities_through_order:
  assumes s: "store_ok s" and h: "store_ok h" and n: "natom h = natom s"
    and pos: "1 \<le> natom s" "1 \<le> ntime s" "1 \<le> ntime h"
    and ord: "length order = natom s" "list_all (\<lambda>oi. oi < natom s) order"
  shows "\<exists>r. add_md (\<lambda>x y. Inr order) s h = Inr r
           \<and> take (3 * natom s * ntime s) (velocities (base r)) = velocities s
           \<and> (if tryToMap s \<and> order \<noteq> [0..<natom s]
              then \<forall>itime < ntime h. \<forall>iatom < natom s. \<forall>c < 3.
                     velocities (base r)
                       ! (3 * natom s * ntime s + itime * 3 * natom s + iatom * 3 + c)
                     = velocities h ! (itime * 3 * natom s + order ! iatom * 3 + c)
              else drop (3 * natom s * ntime s) (velocities (base r)) = velocities h)"
proof -
  let ?m = "merged_series s h"
  have ss: "series_sized s" "series_sized h" using s h by (simp_all add: store_ok_def)
  have vs: "velocities s \<noteq> []" "velocities h \<noteq> []"
    using store_ok_velocities [OF s h n pos] by simp_all
  then have ve: "(velocities s = []) = (velocities h = [])" by simp
  have ls: "length (velocities ?m) = 3 * natom ?m * ntime s"
    "length (velocities h) = 3 * natom ?m * ntime h"
    "ntime ?m = ntime s + ntime h" "natom ?m = natom s" "velocities ?m = velocities s"
    using s h n by (simp_all add: store_ok_def merged_series_def)
  have lv: "length (velocities s) = 3 * natom s * ntime s" using s by (simp add: store_ok_def)
  show ?thesis
  proof (cases "tryToMap s \<and> order \<noteq> [0..<natom s]")
    case True
    then have fo: "find_order (\<lambda>x y. Inr order) (?m\<lparr>pressure := pressure s\<rparr>) h = Inr (order, True)"
      using ord(1) moved_iff [of order] by (simp add: find_order_def merged_series_def)
    have ord': "length order = natom ?m" "list_all (\<lambda>oi. oi < natom ?m) order"
      using ord ls(4) by simp_all
    from merge_velocities_reordered [OF ls(1,2,3) refl ord']
    obtain V where V: "merge_velocities order True (ntime s) ?m h = Inr V"
      "take (3 * natom s * ntime s) V = velocities s"
      "\<forall>itime < ntime h. \<forall>iatom < natom s. \<forall>c < 3.
          V ! (3 * natom s * ntime s + itime * 3 * natom s + iatom * 3 + c)
            = velocities h ! (itime * 3 * natom s + order ! iatom * 3 + c)"
      unfolding ls(4,5) by blast
    have mv: "merge_velocity_block (velocities s \<noteq> []) (fst (order, True)) (snd (order, True))
                (ntime s) h ?m = Inr (?m\<lparr>velocities := V\<rparr>)"
      using vs V(1) by (simp add: merge_velocity_block_def)
    have "add_md (\<lambda>x y. Inr order) s h =
            Inr \<lparr> base = ?m\<lparr>velocities := V, entropy := entropy s @ replicate (ntime h) 0 \<rparr>,
                   appended = h, printed = merge_printed s h \<rparr>"
      using add_md_result [OF ss ve fo mv] by (simp add: merged_series_def)
    then show ?thesis unfolding if_P [OF True] using V(2,3) by simp
  next
    case False
    have "\<exists>o'. find_order (\<lambda>x y. Inr order) (?m\<lparr>pressure := pressure s\<rparr>) h = Inr (o', False)"
    proof (cases "tryToMap s")
      case True
      then have "order = [0..<length order]" using False ord(1) by simp
      then have "\<not> list_ex (\<lambda>i. i \<noteq> order ! i) [0..<length order]"
        using moved_iff [of order] by simp
      then show ?thesis using True by (simp add: find_order_def merged_series_def)
    next
      case False
      then show ?thesis by (simp add: find_order_def merged_series_def)
    qed
    then obtain o' where fo: "find_order (\<lambda>x y. Inr order) (?m\<lparr>pressure := pressure s\<rparr>) h = Inr (o', False)"
      by blast
    have mv: "merge_velocity_block (velocities s \<noteq> []) (fst (o', False)) (snd (o', False))
                (ntime s) h ?m = Inr (?m\<lparr>velocities := velocities s @ velocities h\<rparr>)"
      using vs merge_velocities_direct [OF ls(1,2,3), of o'] ls(5)
      by (simp add: merge_velocity_block_def)
    have "add_md (\<lambda>x y. Inr order) s h =
            Inr \<lparr> base = ?m\<lparr>velocities := velocities s @ velocities h,
                              entropy := entropy s @ replicate (ntime h) 0 \<rparr>,
                   appended = h, printed = merge_printed s h \<rparr>"
      using add_md_result [OF ss ve fo mv] by (simp add: merged_series_def)
    then show ?thesis unfolding if_not_P [OF False] using lv by simp
  qed
qed


theorem merge_velocities_through_order_witness:
  "store_ok pair_a \<and> store_ok pair_b \<and> natom pair_b = natom pair_a
   \<and> 1 \<le> natom pair_a \<and> 1 \<le> ntime pair_a \<and> 1 \<le> ntime pair_b
   \<and> length [1, 0 :: nat] = natom pair_a \<and> list_all (\<lambda>oi. oi < natom pair_a) [1, 0]
   \<and> tryToMap pair_a \<and> [1, 0] \<noteq> [0..<natom pair_a]
   \<and> (\<exists>r. add_md (\<lambda>x y. Inr [1, 0]) pair_a pair_b = Inr r
         \<and> take (3 * natom pair_a * ntime pair_a) (velocities (base r)) = velocities pair_a
         \<and> (\<forall>itime < ntime pair_b. \<forall>iatom < natom pair_a. \<forall>c < 3.
               velocities (base r)
                 ! (3 * natom pair_a * ntime pair_a + itime * 3 * natom pair_a + iatom * 3 + c)
               = velocities pair_b ! (itime * 3 * natom pair_a + [1, 0] ! iatom * 3 + c)))"
proof -
  have a: "store_ok pair_a" "store_ok pair_b" "natom pair_b = natom pair_a"
    "1 \<le> natom pair_a" "1 \<le> ntime pair_a" "1 \<le> ntime pair_b"
    "length [1, 0 :: nat] = natom pair_a" "list_all (\<lambda>oi. oi < natom pair_a) [1, 0]"
    by (simp_all add: store_ok_def series_sized_def pair_a_def pair_b_def)
  have b: "tryToMap pair_a \<and> [1, 0] \<noteq> [0..<natom pair_a]"
    by (simp add: pair_a_def upt_rec)
  show ?thesis
    using a b merge_velocities_through_order [OF a] unfolding if_P [OF b] by blast
qed

subsection \<open>The merge of two well-sized stores\<close>
lemma add_md_ok:
  assumes s: "store_ok s" and h: "store_ok h" and n: "natom h = natom s"
    and ve: "(velocities s = []) = (velocities h = [])"
    and ok: "order_ok (natom s) (reorder ((merged_series s h)\<lparr>pressure := pressure s\<rparr>) h)"
  shows "\<exists>V. add_md reorder s h =
            Inr \<lparr> base = (merged_series s h)
                     \<lparr> velocities := V, entropy := entropy s @ replicate (ntime h) 0 \<rparr>,
                   appended = h, printed = merge_printed s h \<rparr>
           \<and> length V = 3 * natom s * (ntime s + ntime h)"
proof -
  let ?m = "merged_series s h"
  have ss: "series_sized s" "series_sized h" using s h by (simp_all add: store_ok_def)
  have ls: "length (velocities ?m) = 3 * natom ?m * ntime s"
    "length (velocities h) = 3 * natom ?m * ntime h"
    "ntime ?m = ntime s + ntime h" "natom ?m = natom s" "velocities ?m = velocities s"
    using s h n by (simp_all add: store_ok_def merged_series_def)
  have lv: "length (velocities s) = 3 * natom s * ntime s"
    "length (velocities h) = 3 * natom s * ntime h"
    using s h n by (simp_all add: store_ok_def)
  have "\<exists>ob. find_order reorder (?m\<lparr>pressure := pressure s\<rparr>) h = Inr ob
          \<and> (snd ob \<longrightarrow> length (fst ob) = natom s \<and> list_all (\<lambda>oi. oi < natom s) (fst ob))"
    using find_order_cases [of "natom s" reorder "?m\<lparr>pressure := pressure s\<rparr>" h, OF ok]
    by (elim disjE exE conjE) simp_all
  then obtain ob where fo: "find_order reorder (?m\<lparr>pressure := pressure s\<rparr>) h = Inr ob"
    and ob: "snd ob \<longrightarrow> length (fst ob) = natom s \<and> list_all (\<lambda>oi. oi < natom s) (fst ob)"
    by blast
  have "\<exists>V. merge_velocity_block (velocities s \<noteq> []) (fst ob) (snd ob) (ntime s) h ?m
               = Inr (?m\<lparr>velocities := V\<rparr>)
           \<and> length V = 3 * natom s * (ntime s + ntime h)"
  proof (cases "velocities s = []")
    case True
    then have "velocities h = []" using ve by simp
    then have "3 * natom s * (ntime s + ntime h) = 0" using True lv by (simp add: algebra_simps)
    then show ?thesis using True ls(5)
      by (intro exI [of _ "[]"]) (simp add: merge_velocity_block_def merged_series_def)
  next
    case False
    show ?thesis
    proof (cases "snd ob")
      case True
      then have ord': "length (fst ob) = natom ?m" "list_all (\<lambda>oi. oi < natom ?m) (fst ob)"
        using ob ls(4) by simp_all
      from merge_velocities_reordered [OF ls(1,2,3) refl ord']
      obtain V where "merge_velocities (fst ob) True (ntime s) ?m h = Inr V"
        "length V = 3 * natom s * (ntime s + ntime h)"
        unfolding ls(4) by blast
      then show ?thesis using True False
        by (intro exI [of _ V]) (simp add: merge_velocity_block_def)
    next
      case nr: False
      have "merge_velocities (fst ob) False (ntime s) ?m h = Inr (velocities s @ velocities h)"
        using merge_velocities_direct [OF ls(1,2,3), of "fst ob"] ls(5) by simp
      moreover have "length (velocities s @ velocities h) = 3 * natom s * (ntime s + ntime h)"
        using lv by (simp add: algebra_simps)
      ultimately show ?thesis using nr False
        by (intro exI [of _ "velocities s @ velocities h"]) (simp add: merge_velocity_block_def)
    qed
  qed
  then obtain V where mv: "merge_velocity_block (velocities s \<noteq> []) (fst ob) (snd ob) (ntime s) h ?m
               = Inr (?m\<lparr>velocities := V\<rparr>)"
    and V: "length V = 3 * natom s * (ntime s + ntime h)" by blast
  have "add_md reorder s h =
            Inr \<lparr> base = ?m\<lparr>velocities := V, entropy := entropy s @ replicate (ntime h) 0 \<rparr>,
                   appended = h, printed = merge_printed s h \<rparr>"
    using add_md_result [OF ss ve fo mv] by (simp add: merged_series_def)
  then show ?thesis using V by blast
qed

lemma dtion_warning_in_printed:
  "dtion_warning \<in> set (merge_printed s h)
     \<longleftrightarrow> 1 < ntime s \<and> 1 < ntime h \<and> absolute_mismatch s h > 1 / 10 ^ 6"
  by (simp add: merge_printed_def dtion_warning_def temperature_warning_def pressure_warning_def)


subsection \<open>The time-step warning\<close>

text \<open>
  Claim C5, as stated, at two segments of two frames whose spacings are 100 and
  100.00001: the merge prints the warning, and the mismatch relative to the spacing
  is \<open>1e-7\<close>, below the tolerance.
\<close>

theorem dtion_warning_counterexample:
  "add_md reorder_identity spaced_a spaced_b =
     Inr \<lparr> base = \<lparr> ntime = 4, ntimeAvail = 4, natom = 1, typat = [1], znucl = [1],
                    time = [0, 100, 200, 300 + 1 / 10 ^ 5], tryToMap = False,
                    ekin = [1, 2, 3, 4],
                    velocities = [1, 2, 3, 4, 5, 6, 7, 8, 9, 10, 11, 12],
                    temperature = [300, 310, 305, 315],
                    pressure = [7, 8, 7, 9], entropy = [4, 9, 0, 0] \<rparr>,
            appended = spaced_b, printed = [dtion_warning] \<rparr>
   \<and> \<not> spec_relative_mismatch (100 - 0) (300 + 1 / 10 ^ 5 - 200) > 1 / 10 ^ 6"
  by code_simp

text \<open>
  Claim C5, amended. Two stores that satisfy the invariant of the data model, of the
  same atoms and of at least two frames each, are merged, the matching routine
  giving a usable outcome. The merge returns, and it prints the time-step warning
  exactly when the absolute difference of the two frame spacings exceeds \<open>1e-6\<close>.
\<close>

theorem dtion_warning_iff_absolute_mismatch:
  assumes s: "store_ok s" and h: "store_ok h" and n: "natom h = natom s"
    and two: "2 \<le> ntime s" "2 \<le> ntime h"
    and ok: "order_ok (natom s) res"
  shows "\<exists>r. add_md (\<lambda>x y. res) s h = Inr r
           \<and> (dtion_warning \<in> set (printed r)
                \<longleftrightarrow> \<bar>(time s ! 1 - time s ! 0) - (time h ! 1 - time h ! 0)\<bar> > 1 / 10 ^ 6)"
proof -
  have "velocities s = [] \<longleftrightarrow> natom s = 0" "velocities h = [] \<longleftrightarrow> natom s = 0"
    using s h n two by (auto simp: store_ok_def)
  then have ve: "(velocities s = []) = (velocities h = [])" by simp
  from add_md_ok [OF s h n ve, of "\<lambda>x y. res"] ok
  obtain V where "add_md (\<lambda>x y. res) s h =
            Inr \<lparr> base = (merged_series s h)
                     \<lparr> velocities := V, entropy := entropy s @ replicate (ntime h) 0 \<rparr>,
                   appended = h, printed = merge_printed s h \<rparr>" by blast
  then show ?thesis using two dtion_warning_in_printed [of s h]
    by (simp add: absolute_mismatch_def)
qed

theorem dtion_warning_iff_absolute_mismatch_witness:
  "store_ok spaced_a \<and> store_ok spaced_b \<and> natom spaced_b = natom spaced_a
   \<and> 2 \<le> ntime spaced_a \<and> 2 \<le> ntime spaced_b \<and> order_ok (natom spaced_a) (Inr [0])
   \<and> (\<exists>r. add_md (\<lambda>x y. Inr [0]) spaced_a spaced_b = Inr r
           \<and> (dtion_warning \<in> set (printed r)
                \<longleftrightarrow> \<bar>(time spaced_a ! 1 - time spaced_a ! 0)
                        - (time spaced_b ! 1 - time spaced_b ! 0)\<bar> > 1 / 10 ^ 6))"
proof -
  have a: "store_ok spaced_a" "store_ok spaced_b" "natom spaced_b = natom spaced_a"
    "2 \<le> ntime spaced_a" "2 \<le> ntime spaced_b" "order_ok (natom spaced_a) (Inr [0])"
    by (simp_all add: store_ok_def series_sized_def spaced_a_def spaced_b_def order_ok_def)
  show ?thesis using a dtion_warning_iff_absolute_mismatch [OF a] by blast
qed

subsection \<open>The entropy of the appended segment\<close>

lemma merge_entropy_zero_filled:
  assumes "store_ok s" "store_ok h" "natom h = natom s"
    "(velocities s = []) = (velocities h = [])" "order_ok (natom s) res"
    "add_md (\<lambda>x y. res) s h = Inr r"
  shows "entropy (base r) = entropy s @ replicate (ntime h) 0"
    and "ekin (base r) = ekin s @ ekin h"
    and "store_ok (base r)"
proof -
  from add_md_ok [OF assms(1,2,3,4), of "\<lambda>x y. res"] assms(5,6)
  obtain V where r: "r = \<lparr> base = (merged_series s h)
                     \<lparr> velocities := V, entropy := entropy s @ replicate (ntime h) 0 \<rparr>,
                   appended = h, printed = merge_printed s h \<rparr>"
    and V: "length V = 3 * natom s * (ntime s + ntime h)" by auto
  show "entropy (base r) = entropy s @ replicate (ntime h) 0"
    and "ekin (base r) = ekin s @ ekin h"
    by (simp_all add: r merged_series_def)
  show "store_ok (base r)"
    using assms(1,2) V by (simp add: r merged_series_def store_ok_def series_sized_def)
qed

text \<open>
  Claim C1. The claim asks for the appended store's entropy after the base's. The
  last block of the merge resizes the entropy and then copies the kinetic energy a
  second time: merging two one-frame segments of entropy 4 and 9 leaves the
  entropy series \<open>[4, 0]\<close>, where the claim has \<open>[4, 9]\<close>. The kinetic energy, the
  temperature, the pressure and the velocities are appended as the claim says.
\<close>

theorem merge_loses_appended_entropy:
  "add_md reorder_identity segment_a segment_b =
     Inr \<lparr> base = \<lparr> ntime = 2, ntimeAvail = 2, natom = 1, typat = [1], znucl = [1],
                    time = [0, 100], tryToMap = False, ekin = [1, 2],
                    velocities = [1, 2, 3, 4, 5, 6], temperature = [300, 310],
                    pressure = [7, 8], entropy = [4, 0] \<rparr>,
            appended = segment_b, printed = [] \<rparr>"
  by code_simp

section \<open>A failure of the PDOS inside the thermodynamics engine\<close>

lemma pdos_failure_not_reraised:
  assumes "checkTimes s tbegin tend = Inr u"
    and "getPDOS s tbegin tend 0 = Inl (Exception stack)"
  shows "computeThermoFunctionHA ph checkTimes getPDOS s tbegin tend omegaMax
           = Inl UndefinedBehaviour"
  using assms
  by (simp add: computeThermoFunctionHA_def computeThermoFunctionHA_pdos_def window_mean_def
      slice_def)

text \<open>
  Claim C2. The claim asks that a failure of the PDOS is annotated and raised again.
  The handler annotates the exception and does not throw it: with a \<open>getPDOS\<close> that
  fails (the source built without FFTW3) the function goes on with an empty PDOS and
  reads it out of bounds, and the caller never sees the exception of \<open>getPDOS\<close>.
\<close>

theorem pdos_failure_swallowed:
  "computeThermoFunctionHA unit_phys checkTimes_passes getPDOS_without_FFTW3 spaced_a 0 2 (- 1)
     = Inl UndefinedBehaviour"
  by (simp add: computeThermoFunctionHA_def checkTimes_passes_def getPDOS_without_FFTW3_def
      window_mean_def slice_def spaced_a_def computeThermoFunctionHA_pdos_def)

section \<open>The sizes of the series after an interpolation\<close>

text \<open>
  Claim C4. The claim asks that the kinetic energy, the temperature, the pressure and
  the entropy have one entry per frame after every mutating operation. The
  interpolation resizes the kinetic energy to \<open>natom3*newNTime\<close>, the temperature to
  \<open>_xyz*newNTime\<close> and the pressure to \<open>_xyz*_xyz*newNTime\<close>: a store of one atom and
  two frames, interpolated with two steps per segment, has two frames, six entries
  of kinetic energy and of temperature, and eighteen of pressure.
\<close>

theorem interpolate_oversizes_series:
  "interpolate 2 (1 / 2) spaced_a =
     Inr \<lparr> ntime = 2, ntimeAvail = 2, natom = 1, typat = [1], znucl = [1],
        time = [50, 100], tryToMap = False, ekin = [3 / 2, 2, 0, 0, 0, 0],
        velocities = [5 / 2, 7 / 2, 9 / 2, 4, 5, 6],
        temperature = [305, 310, 0, 0, 0, 0],
        pressure = [15 / 2, 8, 0, 0, 0, 0, 0, 0, 0, 0, 0, 0, 0, 0, 0, 0, 0, 0],
        entropy = [13 / 2, 9] \<rparr>"
  by code_simp

section \<open>The renormalisation of the PDOS\<close>







section \<open>The velocity autocorrelation per species\<close>

lemma typat_okD:
  "typat_ok s \<Longrightarrow> i < natom s \<Longrightarrow>
     i < length (typat s) \<and> 1 \<le> typat s ! i \<and> typat s ! i \<le> length (znucl s)"
  by (simp add: typat_ok_def list_all_iff)

lemma ntypat_counts:
  assumes "typat_ok s"
  shows "\<exists>nt. ntypat s = Inr nt \<and> length nt = length (znucl s) + 1 \<and> nt ! 0 = natom s
           \<and> (\<forall>t. 1 \<le> t \<and> t \<le> length (znucl s) \<longrightarrow> nt ! t = atoms_of_type s t)"
proof -
  let ?nz = "length (znucl s)"
  let ?P = "\<lambda>i nt. length nt = ?nz + 1
              \<and> (\<forall>t \<le> ?nz. nt ! t = length (filter (\<lambda>j. typat s ! j = t) [0..<i]))"
  have "\<exists>nt. for_loop (natom s) (count_type (typat s)) (replicate (?nz + 1) 0) = Inr nt
          \<and> ?P (natom s) nt"
  proof (rule for_loop_rule [where P = ?P])
    show "?P 0 (replicate (?nz + 1) 0)" by (simp del: replicate.simps)
  next
    fix i nt assume i: "i < natom s" and P: "?P i nt"
    note t = typat_okD [OF assms i]
    let ?nt' = "nt[typat s ! i := nt ! (typat s ! i) + 1]"
    have "count_type (typat s) i nt = Inr ?nt'"
      using t P by (simp add: count_type_def vec_at_def)
    moreover have "?P (Suc i) ?nt'"
      using P t by (auto simp: nth_list_update)
    ultimately show "\<exists>y. count_type (typat s) i nt = Inr y \<and> ?P (Suc i) y" by blast
  qed
  then obtain nt where nt: "for_loop (natom s) (count_type (typat s)) (replicate (?nz + 1) 0) = Inr nt"
    "?P (natom s) nt" by blast
  have "ntypat s = Inr (nt[0 := natom s])" using nt(1) by (simp add: ntypat_def)
  then show ?thesis using nt(2) by (auto simp: atoms_of_type_def)
qed

lemma sum_list_bump:
  "k < length xs \<Longrightarrow> sum_list (xs[k := xs ! k + x]) = sum_list xs + (x :: real)"
proof (induction xs arbitrary: k)
  case Nil
  then show ?case by simp
next
  case (Cons a xs)
  then show ?case by (cases k) simp_all
qed

lemma add_channel_balanced:
  assumes b: "balanced (Suc nz) row" and t: "iatom < length tp" "1 \<le> tp ! iatom" "tp ! iatom \<le> nz"
    and x: "shift + iatom * 3 + c < length fullvacf"
  shows "\<exists>row'. add_channel fullvacf tp shift iatom c row = Inr row' \<and> balanced (Suc nz) row'"
proof -
  let ?x = "fullvacf ! (shift + iatom * 3 + c)"
  let ?r1 = "row[0 := row ! 0 + ?x]"
  let ?t = "tp ! iatom"
  let ?r2 = "?r1[?t := ?r1 ! ?t + ?x]"
  have l: "length row = Suc nz" "sum_list row = 2 * row ! 0" using b by (simp_all add: balanced_def)
  have e: "add_channel fullvacf tp shift iatom c row = Inr ?r2"
    using l t x by (simp add: add_channel_def vec_at_def Let_def)
  have s1: "sum_list ?r1 = sum_list row + ?x"
    using l sum_list_bump [of 0 row ?x] by simp
  have "sum_list ?r2 = sum_list ?r1 + ?x"
    using l t sum_list_bump [of ?t ?r1 ?x] by simp
  then have "sum_list ?r2 = 2 * ?r2 ! 0" using s1 l t by simp
  then have "balanced (Suc nz) ?r2" using l by (simp add: balanced_def)
  then show ?thesis using e by blast
qed

lemma vacf_row_balanced:
  assumes ok: "typat_ok s" and b: "balanced (Suc (length (znucl s))) row"
    and x: "itau * 3 * natom s + natom s * 3 \<le> length fullvacf"
  shows "\<exists>row'. vacf_row fullvacf s itau row = Inr row'
           \<and> balanced (Suc (length (znucl s))) row'"
  unfolding vacf_row_def
proof (rule for_loop_rule [where P = "\<lambda>i. balanced (Suc (length (znucl s)))"])
  show "balanced (Suc (length (znucl s))) row" by (rule b)
next
  fix iatom r assume i: "iatom < natom s" and r: "balanced (Suc (length (znucl s))) r"
  note t = typat_okD [OF ok i]
  show "\<exists>y. for_loop 3 (add_channel fullvacf (typat s) (itau * 3 * natom s) iatom) r = Inr y
          \<and> balanced (Suc (length (znucl s))) y"
  proof (rule for_loop_rule [where P = "\<lambda>i. balanced (Suc (length (znucl s)))"])
    show "balanced (Suc (length (znucl s))) r" by (rule r)
  next
    fix c z assume c: "c < (3::nat)" and z: "balanced (Suc (length (znucl s))) z"
    have "itau * 3 * natom s + iatom * 3 + c < length fullvacf" using x i c by simp
    then show "\<exists>y. add_channel fullvacf (typat s) (itau * 3 * natom s) iatom c z = Inr y
            \<and> balanced (Suc (length (znucl s))) y"
      using add_channel_balanced [OF z] t by blast
  qed
qed

lemma vacf_tmp_balanced:
  assumes ok: "typat_ok s" and x: "ntau * (3 * natom s) \<le> length fullvacf"
  shows "\<exists>tmp. vacf_tmp fullvacf s ntau = Inr tmp \<and> length tmp = ntau
           \<and> (\<forall>itau < ntau. balanced (Suc (length (znucl s))) (tmp ! itau))"
proof -
  let ?b = "balanced (Suc (length (znucl s)))"
  let ?P = "\<lambda>(i::nat) tmp. length tmp = ntau \<and> (\<forall>itau < ntau. ?b (tmp ! itau))"
  have "\<exists>tmp. vacf_tmp fullvacf s ntau = Inr tmp \<and> ?P ntau tmp"
    unfolding vacf_tmp_def
  proof (rule for_loop_rule [where P = ?P])
    show "?P 0 (replicate ntau (replicate (length (znucl s) + 1) 0))"
      by (simp add: balanced_def sum_list_replicate del: replicate.simps)
  next
    fix itau tmp assume i: "itau < ntau" and P: "?P itau tmp"
    have "Suc itau * (3 * natom s) \<le> ntau * (3 * natom s)"
      using i by (intro mult_le_mono1) simp
    then have "itau * 3 * natom s + natom s * 3 \<le> length fullvacf"
      using x by (simp add: algebra_simps)
    from vacf_row_balanced [OF ok _ this, of "tmp ! itau"] P i
    obtain row where row: "vacf_row fullvacf s itau (tmp ! itau) = Inr row" "?b row" by blast
    have "?P (Suc itau) (tmp[itau := row])" using P row(2) i by (auto simp: nth_list_update)
    then show "\<exists>y. (case vacf_row fullvacf s itau (tmp ! itau) of Inl f \<Rightarrow> Inl f
                     | Inr row \<Rightarrow> Inr (tmp[itau := row])) = Inr y \<and> ?P (Suc itau) y"
      using row(1) by simp
  qed
  then show ?thesis by blast
qed

lemma sequence_all_Inr:
  "sequence (map (\<lambda>i. Inr (f i)) xs) = Inr (map f xs)"
  by (induction xs) (simp_all add: sequence_def)

lemma slice_from: "a + k \<le> length v \<Longrightarrow> slice v a (a + k) = Inr (take k (drop a v))"
  by (simp add: slice_def)

lemma species_sum:
  assumes "balanced (Suc nz) row"
  shows "(\<Sum>ityp\<leftarrow>[1..<nz + 1]. row ! ityp) = row ! 0"
proof -
  have l: "length row = Suc nz" and b: "sum_list row = 2 * row ! 0"
    using assms by (simp_all add: balanced_def)
  have "row = map ((!) row) [0..<Suc nz]" using l by (metis map_nth)
  also have "\<dots> = row ! 0 # map ((!) row) [1..<nz + 1]"
    by (simp add: upt_rec [of 0] del: upt_Suc)
  finally have "sum_list row = row ! 0 + (\<Sum>ityp\<leftarrow>[1..<nz + 1]. row ! ityp)"
    by (metis sum_list.Cons)
  then show ?thesis using b by simp
qed

text \<open>
  Claim C9. For a window \<open>tbegin < tend \<le> ntime\<close> of a store that satisfies the
  invariant of the data model, with a well-formed table of types in which every
  species has an atom, a nonzero unit of time, and an autocorrelation primitive that
  returns: \<open>getVACF\<close>
  returns one series for all atoms and one per species, and at every lag the value
  for all atoms times \<open>3 * natom\<close> is the sum over the species of the species' value
  times three times its number of atoms.
\<close>

theorem vacf_conservation:
  assumes win: "tbegin < tend" "tend \<le> ntime s"
    and s: "store_ok s" and n: "1 \<le> natom s" and ok: "typat_ok s"
    and present: "list_all (\<lambda>ityp. 0 < atoms_of_type s ityp) [1..<length (znucl s) + 1]"
    and unit: "atu2fs ph \<noteq> 0"
    and acf: "acf (take ((tend - tbegin) * 3 * natom s) (drop (tbegin * 3 * natom s) (velocities s)))
                (3 * natom s) = Inr fullvacf"
  shows "\<exists>vacf. getVACF ph acf s tbegin tend = Inr vacf
           \<and> length vacf = length (znucl s) + 1
           \<and> (\<forall>ityp \<le> length (znucl s). length (vacf ! ityp) = length fullvacf div (3 * natom s))
           \<and> (\<forall>itau < length fullvacf div (3 * natom s).
                 vacf ! 0 ! itau * real (3 * natom s)
                 = (\<Sum>ityp\<leftarrow>[1..<length (znucl s) + 1].
                      vacf ! ityp ! itau * real (3 * atoms_of_type s ityp)))"
proof -
  let ?nz = "length (znucl s)"
  let ?ntau = "length fullvacf div (3 * natom s)"
  let ?cv = "conversion2nm2ps2 ph"
  have u: "usub tend tbegin = tend - tbegin" using win by (simp add: usub_def)
  have e: "tbegin * 3 * natom s + (tend - tbegin) * 3 * natom s = tend * 3 * natom s"
    using win by (simp add: add_mult_distrib [symmetric])
  have "tend * (3 * natom s) \<le> ntime s * (3 * natom s)"
    using win by (intro mult_le_mono1) simp
  then have "tend * 3 * natom s \<le> length (velocities s)"
    using s by (simp add: store_ok_def mult.commute mult.left_commute)
  then have sl: "slice (velocities s) (tbegin * 3 * natom s)
                   (tbegin * 3 * natom s + (tend - tbegin) * 3 * natom s)
          = Inr (take ((tend - tbegin) * 3 * natom s) (drop (tbegin * 3 * natom s) (velocities s)))"
    by (intro slice_from) (simp only: e)
  from ntypat_counts [OF ok] obtain nt where nt: "ntypat s = Inr nt" "length nt = ?nz + 1"
    "nt ! 0 = natom s" "\<forall>t. 1 \<le> t \<and> t \<le> ?nz \<longrightarrow> nt ! t = atoms_of_type s t" by blast
  have "?ntau * (3 * natom s) \<le> length fullvacf" by simp
  from vacf_tmp_balanced [OF ok this] obtain tmp where tmp: "vacf_tmp fullvacf s ?ntau = Inr tmp"
    "length tmp = ?ntau" "\<forall>itau < ?ntau. balanced (Suc ?nz) (tmp ! itau)" by blast
  have pos: "0 < nt ! ityp" if "ityp \<le> ?nz" for ityp
  proof (cases "ityp = 0")
    case True
    then show ?thesis using nt(3) n by simp
  next
    case False
    then have "ityp \<in> set [1..<?nz + 1]" using that by auto
    then have "0 < atoms_of_type s ityp" using present unfolding list_all_iff by blast
    then show ?thesis using nt(4) False that by simp
  qed
  let ?f = "\<lambda>ityp. map (\<lambda>itau. tmp ! itau ! ityp / real (3 * (nt ! ityp)) * ?cv) [0..<?ntau]"
  have nf: "normalise_type ph tmp nt ?ntau ityp = Inr (?f ityp)" if "ityp \<le> ?nz" for ityp
    using pos [OF that] unit by (simp add: normalise_type_def)
  have "map (normalise_type ph tmp nt ?ntau) [0..<?nz + 1] = map (\<lambda>ityp. Inr (?f ityp)) [0..<?nz + 1]"
  proof (rule map_cong [OF refl])
    fix ityp assume "ityp \<in> set [0..<?nz + 1]"
    then have "ityp \<le> ?nz" by auto
    then show "normalise_type ph tmp nt ?ntau ityp = Inr (?f ityp)" by (rule nf)
  qed
  then have sq: "sequence (map (normalise_type ph tmp nt ?ntau) [0..<?nz + 1])
                   = Inr (map ?f [0..<?nz + 1])"
    by (simp only: sequence_all_Inr)
  have g: "getVACF ph acf s tbegin tend = Inr (map ?f [0..<?nz + 1])"
    unfolding getVACF_def Let_def u sl
    using acf n nt(1) tmp(1) sq by simp
  have v: "map ?f [0..<?nz + 1] ! ityp ! itau = tmp ! itau ! ityp / real (3 * (nt ! ityp)) * ?cv"
    if "ityp \<le> ?nz" "itau < ?ntau" for ityp itau
    using that by (simp add: nth_map [of ityp "[0..<?nz + 1]"] del: upt_Suc)
  have cons: "map ?f [0..<?nz + 1] ! 0 ! itau * real (3 * natom s)
                 = (\<Sum>ityp\<leftarrow>[1..<?nz + 1].
                      map ?f [0..<?nz + 1] ! ityp ! itau * real (3 * atoms_of_type s ityp))"
    if it: "itau < ?ntau" for itau
  proof -
    have b: "balanced (Suc ?nz) (tmp ! itau)" using tmp(3) it by simp
    have "map (\<lambda>ityp. map ?f [0..<?nz + 1] ! ityp ! itau * real (3 * atoms_of_type s ityp))
              [1..<?nz + 1]
           = map (\<lambda>ityp. tmp ! itau ! ityp * ?cv) [1..<?nz + 1]"
    proof (rule map_cong [OF refl])
      fix ityp assume "ityp \<in> set [1..<?nz + 1]"
      then have r: "1 \<le> ityp" "ityp \<le> ?nz" by auto
      have "nt ! ityp = atoms_of_type s ityp" using nt(4) r by blast
      moreover have "0 < nt ! ityp" using pos [OF r(2)] .
      ultimately have "nt ! ityp = atoms_of_type s ityp" "0 < nt ! ityp" by simp_all
      then show "map ?f [0..<?nz + 1] ! ityp ! itau * real (3 * atoms_of_type s ityp)
                   = tmp ! itau ! ityp * ?cv"
        using v [OF r(2) it] by simp
    qed
    then have "(\<Sum>ityp\<leftarrow>[1..<?nz + 1].
                  map ?f [0..<?nz + 1] ! ityp ! itau * real (3 * atoms_of_type s ityp))
                 = (\<Sum>ityp\<leftarrow>[1..<?nz + 1]. tmp ! itau ! ityp * ?cv)"
      by (rule arg_cong)
    also have "\<dots> = (\<Sum>ityp\<leftarrow>[1..<?nz + 1]. tmp ! itau ! ityp) * ?cv"
      by (simp add: sum_list_mult_const)
    also have "\<dots> = tmp ! itau ! 0 * ?cv" using species_sum [OF b] by simp
    also have "\<dots> = map ?f [0..<?nz + 1] ! 0 ! itau * real (3 * natom s)"
      using v [of 0 itau] it nt(3) n by simp
    finally show ?thesis by simp
  qed
  have len: "length (map ?f [0..<?nz + 1] ! ityp) = ?ntau" if "ityp \<le> ?nz" for ityp
    using that by (simp add: nth_map [of ityp "[0..<?nz + 1]"] del: upt_Suc)
  show ?thesis
    using g cons len by (intro exI [of _ "map ?f [0..<?nz + 1]"]) simp
qed

theorem vacf_conservation_witness:
  "(0::nat) < 1 \<and> 1 \<le> ntime pair_a \<and> store_ok pair_a \<and> 1 \<le> natom pair_a \<and> typat_ok pair_a
   \<and> list_all (\<lambda>ityp. 0 < atoms_of_type pair_a ityp) [1..<length (znucl pair_a) + 1]
   \<and> atu2fs unit_phys \<noteq> 0
   \<and> acf_products (take ((1 - 0) * 3 * natom pair_a) (drop (0 * 3 * natom pair_a) (velocities pair_a)))
        (3 * natom pair_a) = Inr [1, 4, 9, 16, 25, 36]
   \<and> (\<exists>vacf. getVACF unit_phys acf_products pair_a 0 1 = Inr vacf
           \<and> length vacf = length (znucl pair_a) + 1
           \<and> (\<forall>ityp \<le> length (znucl pair_a).
                 length (vacf ! ityp) = length [1, 4, 9, 16, 25, 36 :: real] div (3 * natom pair_a))
           \<and> (\<forall>itau < length [1, 4, 9, 16, 25, 36 :: real] div (3 * natom pair_a).
                 vacf ! 0 ! itau * real (3 * natom pair_a)
                 = (\<Sum>ityp\<leftarrow>[1..<length (znucl pair_a) + 1].
                      vacf ! ityp ! itau * real (3 * atoms_of_type pair_a ityp))))"
proof -
  have a: "(0::nat) < 1" "1 \<le> ntime pair_a" "store_ok pair_a" "1 \<le> natom pair_a"
    by (simp_all add: pair_a_def store_ok_def series_sized_def)
  have b: "typat_ok pair_a" by code_simp
  have c: "list_all (\<lambda>ityp. 0 < atoms_of_type pair_a ityp) [1..<length (znucl pair_a) + 1]"
    by code_simp
  have u: "atu2fs unit_phys \<noteq> 0" by (simp add: unit_phys_def)
  have d: "acf_products (take ((1 - 0) * 3 * natom pair_a) (drop (0 * 3 * natom pair_a) (velocities pair_a)))
        (3 * natom pair_a) = Inr [1, 4, 9, 16, 25, 36]"
    by (simp add: acf_products_def pair_a_def)
  show ?thesis
    using a b c u d
      vacf_conservation [where acf = acf_products and tbegin = 0 and tend = 1 and s = pair_a
        and ph = unit_phys and fullvacf = "[1, 4, 9, 16, 25, 36]", OF a b c u d]
    by simp
qed

section \<open>The interpolation\<close>

lemma fold_failed:
  "fold (\<lambda>i r. case r of Inl f \<Rightarrow> Inl f | Inr x \<Rightarrow> body i x) xs (Inl f) = Inl f"
  by (induction xs) simp_all

lemma for_down_small: "n \<le> 1 \<Longrightarrow> for_down n body a = Inr a"
  by (simp add: for_down_def)

lemma for_down_Suc:
  assumes "1 \<le> m"
  shows "for_down (Suc m) body a =
           (case body m a of Inl f \<Rightarrow> Inl f | Inr x \<Rightarrow> for_down m body x)"
proof -
  have "rev [1..<Suc m] = m # rev [1..<m]" using assms by simp
  then show ?thesis
    by (cases "body m a") (simp_all add: for_down_def fold_failed)
qed

lemma for_down_rule:
  assumes "P (n - 1) a"
    and "\<And>i x. 1 \<le> i \<Longrightarrow> i < n \<Longrightarrow> P i x \<Longrightarrow> \<exists>y. body i x = Inr y \<and> P (i - 1) y"
  shows "\<exists>y. for_down n body a = Inr y \<and> P 0 y"
  using assms
proof (induction n arbitrary: a)
  case 0
  then show ?case by (simp add: for_down_small)
next
  case (Suc m)
  show ?case
  proof (cases "m = 0")
    case True
    then show ?thesis using Suc.prems(1) by (simp add: for_down_small)
  next
    case False
    then have m: "1 \<le> m" by simp
    from Suc.prems(2) [of m a] m Suc.prems(1)
    obtain y where y: "body m a = Inr y" "P (m - 1) y" by auto
    have "\<exists>z. for_down m body y = Inr z \<and> P 0 z"
    proof (rule Suc.IH [OF y(2)])
      fix i x assume "1 \<le> i" "i < m" "P i x"
      then show "\<exists>y. body i x = Inr y \<and> P (i - 1) y" using Suc.prems(2) [of i x] by simp
    qed
    then show ?thesis using y(1) m by (simp add: for_down_Suc)
  qed
qed

lemma blend_scalar_ok:
  assumes "fs < length X" "C < length X"
  shows "blend_scalar g b lastv fs (int C) X = Inr (X[C := g * lastv + b * X ! fs])"
  using assms by (simp add: blend_scalar_def vec_at_def vec_set_def)

lemma block_below: "(a::nat) < b \<Longrightarrow> w * a + w \<le> w * b"
proof -
  assume "a < b"
  then have "w * Suc a \<le> w * b" by (intro mult_le_mono2) simp
  then show ?thesis by simp
qed

lemma blend_velocities_frame:
  assumes vl: "length vl = w" and fs: "w * fs + w \<le> length V" and C: "w * C + w \<le> length V"
  shows "\<exists>V'. for_loop w (blend_velocity g b vl w fs (int C)) V = Inr V'
           \<and> length V' = length V
           \<and> (\<forall>p < length V. V' ! p =
                 (if w * C \<le> p \<and> p < w * C + w
                  then g * vl ! (p - w * C) + b * V ! (w * fs + (p - w * C)) else V ! p))"
proof -
  let ?new = "\<lambda>p. g * vl ! (p - w * C) + b * V ! (w * fs + (p - w * C))"
  let ?P = "\<lambda>d U. length U = length V
              \<and> (\<forall>p < length V. U ! p = (if w * C \<le> p \<and> p < w * C + d then ?new p else V ! p))"
  have "\<exists>V'. for_loop w (blend_velocity g b vl w fs (int C)) V = Inr V' \<and> ?P w V'"
  proof (rule for_loop_rule [where P = ?P])
    show "?P 0 V" by simp
  next
    fix d U assume d: "d < w" and P: "?P d U"
    have out: "\<not> (w * C \<le> w * fs + d \<and> w * fs + d < w * C + d)"
    proof (cases "fs < C")
      case True
      then have "w * fs + w \<le> w * C" by (rule block_below)
      then show ?thesis using d by simp
    next
      case False
      then have "C \<le> fs" by simp
      then have "w * C \<le> w * fs" by (rule mult_le_mono2)
      then show ?thesis by linarith
    qed
    have r: "w * fs + d < length V" using fs d by simp
    from P r have "U ! (w * fs + d) =
        (if w * C \<le> w * fs + d \<and> w * fs + d < w * C + d then ?new (w * fs + d)
         else V ! (w * fs + d))" by blast
    then have rd: "U ! (w * fs + d) = V ! (w * fs + d)" by (simp only: out if_False)
    have wr: "w * C + d < length U" using C d P by simp
    have idx: "nat (int w * int C + int d) = w * C + d" "0 \<le> int w * int C + int d"
      by (simp_all add: nat_add_distrib nat_mult_distrib)
    let ?U' = "U[w * C + d := g * vl ! d + b * V ! (w * fs + d)]"
    have lu: "length U = length V" using P by simp
    have e: "blend_velocity g b vl w fs (int C) d U = Inr ?U'"
      unfolding blend_velocity_def vec_at_def vec_set_def idx lu
      using vl d r wr lu by (simp add: rd)
    have "?P (Suc d) ?U'"
    proof (intro conjI allI impI)
      show "length ?U' = length V" using P by simp
    next
      fix p assume p: "p < length V"
      show "?U' ! p = (if w * C \<le> p \<and> p < w * C + Suc d then ?new p else V ! p)"
      proof (cases "p = w * C + d")
        case True
        then show ?thesis using wr by simp
      next
        case False
        then have "?U' ! p = U ! p" by simp
        also have "\<dots> = (if w * C \<le> p \<and> p < w * C + d then ?new p else V ! p)"
          using P p by simp
        also have "\<dots> = (if w * C \<le> p \<and> p < w * C + Suc d then ?new p else V ! p)"
          using False by auto
        finally show ?thesis .
      qed
    qed
    then show "\<exists>y. blend_velocity g b vl w fs (int C) d U = Inr y \<and> ?P (Suc d) y"
      using e by blast
  qed
  then show ?thesis by blast
qed

lemma block_index:
  assumes "(d::nat) < w"
  shows "(w * C \<le> w * i + d \<and> w * i + d < w * C + w) = (i = C)"
proof (cases "i = C")
  case True
  have "w * C \<le> w * C + d" "w * C + d < w * C + w" using assms by simp_all
  then show ?thesis using True by simp
next
  case False
  then consider "i < C" | "C < i" by linarith
  then show ?thesis
  proof cases
    case 1
    then have "w * i + w \<le> w * C" by (rule block_below)
    then show ?thesis using assms False by simp
  next
    case 2
    then have "w * C + w \<le> w * i" by (rule block_below)
    then show ?thesis using False by simp
  qed
qed

lemma sized_bounds:
  assumes "sized w N s" "1 \<le> w" "i < N"
  shows "i < length (ekin s)" "i < length (temperature s)" "i < length (pressure s)"
    "i < length (entropy s)" "w * i + w \<le> length (velocities s)"
proof -
  have "N \<le> w * N" using assms(2) by simp
  then have "i < w * N" using assms(3) by linarith
  then show "i < length (ekin s)" using assms(1) by (simp add: sized_def)
  show "i < length (temperature s)" "i < length (pressure s)" "i < length (entropy s)"
    using assms by (simp_all add: sized_def xyz_def)
  show "w * i + w \<le> length (velocities s)"
    using assms block_below [of i N w] by (simp add: sized_def)
qed

lemma read_last_ok:
  assumes sz: "sized w N s" and w: "1 \<le> w" and k: "k < N"
  shows "\<exists>l. read_last w k s = Inr l \<and> length (velocitiesLast l) = w
           \<and> (\<forall>ch < 4 + w. channel_last l ch = channel w s ch k)"
proof -
  note b = sized_bounds [OF sz w k]
  let ?vl = "take w (drop (w * k) (velocities s))"
  have sl: "slice (velocities s) (w * k) (w * (k + 1)) = Inr ?vl"
    using b(5) by (simp add: slice_def)
  let ?l = "\<lparr> velocitiesLast = ?vl, ekinLast = ekin s ! k, temperatureLast = temperature s ! k,
              pressureLast = pressure s ! k, entropyLast = entropy s ! k \<rparr>"
  have r: "read_last w k s = Inr ?l"
    unfolding read_last_def sl using b(1-4) by (simp add: vec_at_def)
  have len: "length ?vl = w" using b(5) by simp
  have "channel_last ?l ch = channel w s ch k" if "ch < 4 + w" for ch
  proof (cases "ch < 4")
    case True
    then show ?thesis by (simp add: channel_last_def channel_def)
  next
    case False
    then have "ch - 4 < w" using that by simp
    then have "?vl ! (ch - 4) = velocities s ! (w * k + (ch - 4))" using b(5) by simp
    then show ?thesis using False by (simp add: channel_last_def channel_def)
  qed
  then show ?thesis using r len by (intro exI [of _ ?l]) simp
qed

lemma blend_frame_ok:
  assumes sz: "sized w N s" and w: "1 \<le> w" and C: "C < N" and fs: "fs < N"
    and l: "length (velocitiesLast l) = w"
  shows "\<exists>s'. blend_frame (Some al) w fs l t (s, int C) = Inr (s', int C - 1)
           \<and> sized w N s' \<and> same_base s s'
           \<and> (\<forall>ch < 4 + w. \<forall>i < N. channel w s' ch i =
                 (if i = C
                  then (1 - real t * al) * channel_last l ch + real t * al * channel w s ch fs
                  else channel w s ch i))"
proof -
  let ?g = "1 - real t * al" and ?b = "real t * al"
  note bC = sized_bounds [OF sz w C]
  note bf = sized_bounds [OF sz w fs]
  from blend_velocities_frame [OF l bf(5) bC(5), of ?g ?b]
  obtain V' where V': "for_loop w (blend_velocity ?g ?b (velocitiesLast l) w fs (int C)) (velocities s)
                         = Inr V'"
    "length V' = length (velocities s)"
    "\<forall>p < length (velocities s). V' ! p =
       (if w * C \<le> p \<and> p < w * C + w
        then ?g * velocitiesLast l ! (p - w * C) + ?b * velocities s ! (w * fs + (p - w * C))
        else velocities s ! p)" by blast
  let ?s' = "s\<lparr> velocities := V',
                ekin := (ekin s)[C := ?g * ekinLast l + ?b * ekin s ! fs],
                temperature := (temperature s)[C := ?g * temperatureLast l + ?b * temperature s ! fs],
                pressure := (pressure s)[C := ?g * pressureLast l + ?b * pressure s ! fs],
                entropy := (entropy s)[C := ?g * entropyLast l + ?b * entropy s ! fs] \<rparr>"
  have e: "blend_frame (Some al) w fs l t (s, int C) = Inr (?s', int C - 1)"
    unfolding blend_frame_def
    by (simp add: Let_def V'(1) blend_scalar_ok [OF bf(1) bC(1)] blend_scalar_ok [OF bf(2) bC(2)]
        blend_scalar_ok [OF bf(3) bC(3)] blend_scalar_ok [OF bf(4) bC(4)])
  have sz': "sized w N ?s'" using sz V'(2) by (simp add: sized_def)
  have sb: "same_base s ?s'" by (simp add: same_base_def)
  have ch: "channel w ?s' ch i =
             (if i = C then ?g * channel_last l ch + ?b * channel w s ch fs else channel w s ch i)"
    if "ch < 4 + w" "i < N" for ch i
  proof (cases "ch < 4")
    case True
    note bi = sized_bounds [OF sz w that(2)]
    from True consider "ch = 0" | "ch = 1" | "ch = 2" | "ch = 3" by linarith
    then show ?thesis
      using bi bC by cases (simp_all add: channel_def channel_last_def nth_list_update)
  next
    case False
    let ?d = "ch - 4"
    have d: "?d < w" using that(1) False by simp
    have "w * i + w \<le> w * N" using that(2) by (rule block_below)
    then have p: "w * i + ?d < length (velocities s)" using d sz by (simp add: sized_def)
    have "V' ! (w * i + ?d) =
       (if w * C \<le> w * i + ?d \<and> w * i + ?d < w * C + w
        then ?g * velocitiesLast l ! (w * i + ?d - w * C)
             + ?b * velocities s ! (w * fs + (w * i + ?d - w * C))
        else velocities s ! (w * i + ?d))"
      using V'(3) p by blast
    then have "V' ! (w * i + ?d) =
       (if i = C
        then ?g * velocitiesLast l ! (w * i + ?d - w * C)
             + ?b * velocities s ! (w * fs + (w * i + ?d - w * C))
        else velocities s ! (w * i + ?d))"
      by (simp only: block_index [OF d])
    then show ?thesis using False by (simp add: channel_def channel_last_def)
  qed
  show ?thesis using e sz' sb ch by (intro exI [of _ ?s']) simp
qed

lemma inner_init: "kept orig n m k g \<Longrightarrow> inner orig n m k 0 g"
  by (simp add: kept_def inner_def)

lemma inner_final:
  assumes "inner orig n m k t g" "0 < t" "1 \<le> k"
  shows "kept orig n m (k - 1) g"
  unfolding kept_def
proof (intro conjI allI impI)
  fix i assume "i \<le> k - 1"
  then have "i < k" using assms(3) by simp
  then show "g i = orig i" using assms(1) by (simp add: inner_def)
next
  fix j assume j: "k - 1 < j \<and> j < n"
  show "g (m * j) = orig j"
  proof (cases "j = k")
    case True
    then show ?thesis using assms(1,2) by (simp add: inner_def)
  next
    case False
    then have "k < j" using j by arith
    then show ?thesis using assms(1) j by (simp add: inner_def)
  qed
qed

lemma inner_step:
  assumes inn: "inner orig n m k t g" and t: "t \<le> m" and k: "1 \<le> k" "k < n" and m: "1 \<le> m"
    and upd: "\<forall>i < m * (n - 1) + 1. g' i =
                (if i = m * k - t
                 then (1 - real t * (1 / real m)) * orig k + real t * (1 / real m) * g (k - 1)
                 else g i)"
  shows "inner orig n m k (Suc t) g'"
proof -
  let ?N = "m * (n - 1) + 1"
  have mk: "m * k = m * (k - 1) + m" using k(1) by (cases k) simp_all
  have lo: "k - 1 \<le> m * (k - 1)" using m by simp
  have "k \<le> n - 1" using k(2) by arith
  then have kn: "m * k \<le> m * (n - 1)" by (rule mult_le_mono2)
  have n1: "n - 1 \<le> m * (n - 1)" using m by simp
  have prev: "g (k - 1) = orig (k - 1)" using inn k(1) by (simp add: inner_def)
  have full: "(1 - real m * (1 / real m)) * orig k + real m * (1 / real m) * g (k - 1) = orig (k - 1)"
    using m prev by simp
  show ?thesis
    unfolding inner_def
  proof (intro conjI allI impI)
    fix i assume i: "i < k"
    then have iN: "i < ?N" using k(2) n1 by linarith
    show "g' i = orig i"
    proof (cases "i = m * k - t")
      case True
      then have tm: "t = m" and ik: "i = k - 1" using i t mk lo by linarith+
      have "g' i = (1 - real t * (1 / real m)) * orig k + real t * (1 / real m) * g (k - 1)"
        using upd iN True by simp
      then show ?thesis using full by (simp only: tm ik)
    next
      case False
      then have "g' i = g i" using upd iN by simp
      then show ?thesis using inn i by (simp add: inner_def)
    qed
  next
    fix j assume j: "k < j \<and> j < n"
    then have "j \<le> n - 1" by arith
    then have "m * j \<le> m * (n - 1)" by (rule mult_le_mono2)
    then have jN: "m * j < ?N" by linarith
    have "k < j" using j by simp
    then have "m * k + m \<le> m * j" by (rule block_below)
    then have "m * j \<noteq> m * k - t" using m by linarith
    then have "g' (m * j) = g (m * j)" using upd jN by simp
    then show "g' (m * j) = orig j" using inn j by (simp add: inner_def)
  next
    assume "0 < Suc t"
    have kN: "m * k < ?N" using kn by linarith
    show "g' (m * k) = orig k"
    proof (cases "t = 0")
      case True
      then show ?thesis using upd kN by simp
    next
      case False
      then have "m * k \<noteq> m * k - t" using mk m by linarith
      then have "g' (m * k) = g (m * k)" using upd kN by simp
      then show ?thesis using inn False by (simp add: inner_def)
    qed
  qed
qed

lemma blend_segment_ok:
  fixes exact :: bool
  assumes sz: "sized w N s" and w: "1 \<le> w" and k: "1 \<le> k" "k < N"
    and C0: "ninter \<le> C0 + 1" "C0 < N" and ni: "1 \<le> ninter"
    and al: "blend_alpha ninter amplitude = Some al"
    and ex: "exact \<Longrightarrow> al = 1 / real m \<and> ninter = m + 1 \<and> 1 \<le> m \<and> C0 = m * k \<and> k < n
                       \<and> N = m * (n - 1) + 1"
    and kp: "exact \<Longrightarrow> \<forall>ch < 4 + w. kept (orig ch) n m k (channel w s ch)"
  shows "\<exists>s'. blend_segment ninter amplitude w k (s, int C0)
                 = Inr (s', int C0 - int ninter + (if removeDuplica amplitude then 1 else 0))
           \<and> sized w N s' \<and> same_base s s'
           \<and> (exact \<longrightarrow> (\<forall>ch < 4 + w. kept (orig ch) n m (k - 1) (channel w s' ch)))"
proof -
  from read_last_ok [OF sz w k(2)] obtain l where l: "read_last w k s = Inr l"
    "length (velocitiesLast l) = w" "\<forall>ch < 4 + w. channel_last l ch = channel w s ch k" by blast
  have fs: "k - 1 < N" using k(2) by simp
  let ?P = "\<lambda>t sc. snd sc = int C0 - int t \<and> sized w N (fst sc) \<and> same_base s (fst sc)
              \<and> (exact \<longrightarrow> (\<forall>ch < 4 + w. inner (orig ch) n m k t (channel w (fst sc) ch)))"
  have "\<exists>sc. for_loop ninter (blend_frame (Some al) w (k - 1) l) (s, int C0) = Inr sc \<and> ?P ninter sc"
  proof (rule for_loop_rule [where P = ?P])
    show "?P 0 (s, int C0)" using sz kp by (simp add: same_base_def inner_init)
  next
    fix t x assume t: "t < ninter" and P: "?P t x"
    obtain sx cx where x: "x = (sx, cx)" by (cases x)
    have tC: "t \<le> C0" using t C0(1) by simp
    then have cx: "cx = int (C0 - t)" using P x by simp
    have Ct: "C0 - t < N" using C0(2) by simp
    have szx: "sized w N sx" and sbx: "same_base s sx" using P x by simp_all
    from blend_frame_ok [OF szx w Ct fs l(2), of al t]
    obtain s' where s': "blend_frame (Some al) w (k - 1) l t (sx, int (C0 - t)) = Inr (s', int (C0 - t) - 1)"
      "sized w N s'" "same_base sx s'"
      "\<forall>ch < 4 + w. \<forall>i < N. channel w s' ch i =
                 (if i = C0 - t
                  then (1 - real t * al) * channel_last l ch + real t * al * channel w sx ch (k - 1)
                  else channel w sx ch i)" by blast
    have c': "int (C0 - t) - 1 = int C0 - int (Suc t)" using tC by simp
    have sb: "same_base s s'" using sbx s'(3) by (simp add: same_base_def)
    have val: "inner (orig ch) n m k (Suc t) (channel w s' ch)" if e: exact and ch: "ch < 4 + w" for ch
    proof -
      note f = ex [OF e]
      have lastv: "channel_last l ch = orig ch k" using l(3) kp [OF e] ch by (simp add: kept_def)
      have inn: "inner (orig ch) n m k t (channel w sx ch)" using P x e ch by simp
      have tm: "t \<le> m" using t f by simp
      have upd: "\<forall>i < m * (n - 1) + 1. channel w s' ch i =
                (if i = m * k - t
                 then (1 - real t * (1 / real m)) * orig ch k
                      + real t * (1 / real m) * channel w sx ch (k - 1)
                 else channel w sx ch i)"
        using s'(4) ch f lastv by simp
      show ?thesis using inner_step [OF inn tm k(1) _ _ upd] f by simp
    qed
    have "?P (Suc t) (s', int C0 - int (Suc t))" using s'(2) sb val by simp
    then show "\<exists>y. blend_frame (Some al) w (k - 1) l t x = Inr y \<and> ?P (Suc t) y"
      using s'(1) x cx c' by simp
  qed
  then obtain sc where sc: "for_loop ninter (blend_frame (Some al) w (k - 1) l) (s, int C0) = Inr sc"
    "?P ninter sc" by blast
  have e: "blend_segment ninter amplitude w k (s, int C0)
             = Inr (fst sc, int C0 - int ninter + (if removeDuplica amplitude then 1 else 0))"
    using l(1) sc al by (simp add: blend_segment_def)
  have "exact \<longrightarrow> (\<forall>ch < 4 + w. kept (orig ch) n m (k - 1) (channel w (fst sc) ch))"
    using sc(2) ni k(1) inner_final [where t = ninter] by simp
  then show ?thesis using e sc(2) by (intro exI [of _ "fst sc"]) simp
qed

lemma newNTime_frames:
  assumes "1 \<le> n" "2 \<le> ninter"
  shows "newNTime ninter amplitude n
           = int (stride ninter amplitude * (n - 1) + 1 - lag amplitude)"
proof -
  obtain n' where n': "n = Suc n'" using assms(1) by (cases n) simp_all
  obtain m where m: "ninter = Suc m" using assms(2) by (cases ninter) simp_all
  show ?thesis
    by (simp add: newNTime_def stride_def lag_def n' m algebra_simps)
qed

lemma stride_facts:
  assumes "2 \<le> ninter"
  shows "1 \<le> stride ninter amplitude" "ninter = stride ninter amplitude + 1 - lag amplitude"
    "lag amplitude \<le> 1"
  using assms by (auto simp: stride_def lag_def)

lemma segment_position:
  assumes sp: "1 \<le> sp" and off: "off \<le> (1::nat)" and k: "1 \<le> k" "k < n"
    and N: "N = sp * (n - 1) + 1 - off" and two: "2 \<le> sp + 1 - off"
  shows "sp + 1 - off \<le> (sp * k - off) + 1" "sp * k - off < N" "k < N"
    "int (sp * k - off) - int (sp + 1 - off) + (1 - int off) = int (sp * (k - 1)) - int off"
    "int (sp * k - off) = int (sp * k) - int off"
proof -
  obtain k' where k': "k = Suc k'" using k(1) by (cases k) simp_all
  have a: "sp * k = sp * k' + sp" by (simp add: k')
  have "k \<le> n - 1" using k(2) by arith
  then have b: "sp * k \<le> sp * (n - 1)" by (rule mult_le_mono2)
  have c: "n - 1 \<le> sp * (n - 1)" using sp by simp
  show "sp + 1 - off \<le> (sp * k - off) + 1" using a off by linarith
  show "sp * k - off < N" using a b sp off N by linarith
  show "k < N"
  proof (cases "off = 0")
    case True
    then show ?thesis using c k N by linarith
  next
    case False
    then have "2 \<le> sp" using two off by linarith
    then have "2 * (n - 1) \<le> sp * (n - 1)" by (rule mult_le_mono1)
    then show ?thesis using k N off False by linarith
  qed
  show "int (sp * k - off) - int (sp + 1 - off) + (1 - int off) = int (sp * (k - 1)) - int off"
    using a sp off by (simp add: k' of_nat_diff algebra_simps)
  show "int (sp * k - off) = int (sp * k) - int off" using a sp off by (simp add: of_nat_diff)
qed

lemma blend_alpha_ok: "2 \<le> ninter \<Longrightarrow> blend_alpha ninter amplitude = Some (amplitude / real (ninter - 1))"
  by (simp add: blend_alpha_def)

lemma removeDuplica_one: "removeDuplica 1"
  by (simp add: removeDuplica_def)

lemma interpolate_loop_ok:
  assumes n: "1 \<le> n" and ni: "2 \<le> ninter" and w: "1 \<le> w"
    and N: "int N = newNTime ninter amplitude n" and sz: "sized w N s0"
  shows "\<exists>sc. for_down n (blend_segment ninter amplitude w) (s0, newNTime ninter amplitude n - 1)
                 = Inr sc
           \<and> sized w N (fst sc) \<and> same_base s0 (fst sc)
           \<and> (amplitude = 1 \<longrightarrow>
                (\<forall>ch < 4 + w. \<forall>j < n. channel w (fst sc) ch ((ninter - 1) * j) = channel w s0 ch j))"
proof -
  let ?sp = "stride ninter amplitude" and ?off = "lag amplitude"
  let ?m = "ninter - 1"
  note sf = stride_facts [OF ni, of amplitude]
  have Nv: "N = ?sp * (n - 1) + 1 - ?off"
    using N newNTime_frames [OF n ni, of amplitude] by simp
  have two: "2 \<le> ?sp + 1 - ?off" using sf(2) ni by simp
  let ?cpos = "\<lambda>k. int (?sp * k) - int ?off"
  let ?Inv = "\<lambda>k sc. snd sc = ?cpos k \<and> sized w N (fst sc) \<and> same_base s0 (fst sc)
                \<and> (amplitude = 1 \<longrightarrow>
                     (\<forall>ch < 4 + w. kept (channel w s0 ch) n ?m k (channel w (fst sc) ch)))"
  have exact: "?sp = ?m \<and> ?off = 0" if "amplitude = 1"
    using that removeDuplica_one by (simp add: stride_def lag_def)
  have "\<exists>sc. for_down n (blend_segment ninter amplitude w) (s0, newNTime ninter amplitude n - 1)
                 = Inr sc \<and> ?Inv 0 sc"
  proof (rule for_down_rule [where P = ?Inv])
    have "newNTime ninter amplitude n - 1 = ?cpos (n - 1)"
      using N [symmetric] Nv sf(3) by (simp add: of_nat_diff)
    then show "?Inv (n - 1) (s0, newNTime ninter amplitude n - 1)"
      using sz by (auto simp: same_base_def kept_def)
  next
    fix k x assume k: "1 \<le> k" "k < n" and I: "?Inv k x"
    obtain sx cx where x: "x = (sx, cx)" by (cases x)
    note p = segment_position [OF sf(1) sf(3) k Nv two]
    let ?C0 = "?sp * k - ?off"
    have cx: "cx = int ?C0" using I x p(5) by simp
    have szx: "sized w N sx" and sbx: "same_base s0 sx" using I x by simp_all
    have C1: "ninter \<le> ?C0 + 1" using p(1) sf(2) by simp
    have ni1: "1 \<le> ninter" using ni by simp
    have ex: "amplitude = 1 \<Longrightarrow> amplitude / real ?m = 1 / real ?m \<and> ninter = ?m + 1 \<and> 1 \<le> ?m
                 \<and> ?C0 = ?m * k \<and> k < n \<and> N = ?m * (n - 1) + 1"
      using exact ni k(2) Nv by simp
    have kp: "amplitude = 1 \<Longrightarrow> \<forall>ch < 4 + w. kept (channel w s0 ch) n ?m k (channel w sx ch)"
      using I x by simp
    from blend_segment_ok [where exact = "amplitude = 1" and orig = "channel w s0",
        OF szx w k(1) p(3) C1 p(2) ni1 blend_alpha_ok [OF ni] ex kp]
    obtain s' where s': "blend_segment ninter amplitude w k (sx, int ?C0)
                 = Inr (s', int ?C0 - int ninter + (if removeDuplica amplitude then 1 else 0))"
      "sized w N s'" "same_base sx s'"
      "amplitude = 1 \<longrightarrow> (\<forall>ch < 4 + w. kept (channel w s0 ch) n ?m (k - 1) (channel w s' ch))"
      by blast
    have "int ?C0 - int ninter + (if removeDuplica amplitude then 1 else 0) = ?cpos (k - 1)"
    proof -
      have "(if removeDuplica amplitude then 1 else 0) = 1 - int ?off" by (simp add: lag_def)
      moreover have "int ninter = int (?sp + 1 - ?off)" using sf(2) by simp
      ultimately show ?thesis using p(4) by simp
    qed
    moreover have "same_base s0 s'" using sbx s'(3) by (simp add: same_base_def)
    ultimately have "?Inv (k - 1) (s', int ?C0 - int ninter + (if removeDuplica amplitude then 1 else 0))"
      using s'(2,4) by simp
    then show "\<exists>y. blend_segment ninter amplitude w k x = Inr y \<and> ?Inv (k - 1) y"
      using s'(1) x cx by simp
  qed
  then obtain sc where sc: "for_down n (blend_segment ninter amplitude w)
       (s0, newNTime ninter amplitude n - 1) = Inr sc" "?Inv 0 sc" by blast
  have "channel w (fst sc) ch (?m * j) = channel w s0 ch j"
    if "amplitude = 1" "ch < 4 + w" "j < n" for ch j
  proof -
    have kp: "kept (channel w s0 ch) n ?m 0 (channel w (fst sc) ch)" using sc(2) that by simp
    show ?thesis
    proof (cases "j = 0")
      case True
      then show ?thesis using kp by (simp add: kept_def)
    next
      case False
      then show ?thesis using kp that(3) by (simp add: kept_def)
    qed
  qed
  then show ?thesis using sc by (intro exI [of _ sc]) simp
qed

lemma length_resize: "length (resize n v) = n"
  by (auto simp: resize_def)


lemma blend_time_segment_ok:
  assumes T: "length T = N" and k: "1 \<le> k" "k < N" and C0: "ninter \<le> C0 + 1" "C0 < N"
    and al: "blend_alpha ninter amplitude = Some al"
  shows "\<exists>T'. blend_time_segment ninter amplitude k (T, int C0)
                 = Inr (T', int C0 - int ninter + (if removeDuplica amplitude then 1 else 0))
           \<and> length T' = N"
proof -
  let ?body = "\<lambda>tinter tc.
                case blend_alpha ninter amplitude of None \<Rightarrow> Inl NonFinite
                | Some al \<Rightarrow>
                   (case blend_scalar (1 - real tinter * al) (real tinter * al) (T ! k)
                           (k - 1) (snd tc) (fst tc) of
                      Inl f \<Rightarrow> Inl f
                    | Inr t' \<Rightarrow> Inr (t', snd tc - 1))"
  let ?P = "\<lambda>t (tc :: real list \<times> int). snd tc = int C0 - int t \<and> length (fst tc) = N"
  have "\<exists>tc. for_loop ninter ?body (T, int C0) = Inr tc \<and> ?P ninter tc"
  proof (rule for_loop_rule [where P = ?P])
    show "?P 0 (T, int C0)" using T by simp
  next
    fix t x assume t: "t < ninter" and P: "?P t x"
    obtain X cx where x: "x = (X, cx)" by (cases x)
    have tC: "t \<le> C0" using t C0(1) by simp
    then have cx: "cx = int (C0 - t)" using P x by simp
    have b: "k - 1 < length X" "C0 - t < length X" using P x k(2) C0(2) by simp_all
    have "?body t x = Inr (X[C0 - t := (1 - real t * al) * T ! k + real t * al * X ! (k - 1)],
                           int (C0 - t) - 1)"
      using blend_scalar_ok [OF b] by (simp add: al x cx)
    moreover have "int (C0 - t) - 1 = int C0 - int (Suc t)" using tC by simp
    ultimately show "\<exists>y. ?body t x = Inr y \<and> ?P (Suc t) y" using P x by simp
  qed
  then obtain tc where tc: "for_loop ninter ?body (T, int C0) = Inr tc" "?P ninter tc" by blast
  have "blend_time_segment ninter amplitude k (T, int C0)
          = Inr (fst tc, int C0 - int ninter + (if removeDuplica amplitude then 1 else 0))"
    using tc T k(2) by (simp add: blend_time_segment_def vec_at_def)
  then show ?thesis using tc(2) by (intro exI [of _ "fst tc"]) simp
qed

lemma HistData_interpolate_ok:
  assumes n: "1 \<le> ntime s" and ni: "2 \<le> ninter"
  shows "\<exists>T. HistData_interpolate ninter amplitude s
               = Inr (s\<lparr> ntime := nat (newNTime ninter amplitude (ntime s)),
                        ntimeAvail := nat (newNTime ninter amplitude (ntime s)), time := T \<rparr>)"
proof -
  let ?n = "ntime s"
  let ?sp = "stride ninter amplitude" and ?off = "lag amplitude"
  let ?N = "?sp * (?n - 1) + 1 - ?off"
  note sf = stride_facts [OF ni, of amplitude]
  have Nv: "newNTime ninter amplitude ?n = int ?N" by (rule newNTime_frames [OF n ni])
  have two: "2 \<le> ?sp + 1 - ?off" using sf(2) ni by simp
  let ?cpos = "\<lambda>k. int (?sp * k) - int ?off"
  let ?Inv = "\<lambda>k (tc :: real list \<times> int). snd tc = ?cpos k \<and> length (fst tc) = ?N"
  have "\<exists>tc. for_down ?n (blend_time_segment ninter amplitude) (resize ?N (time s), int ?N - 1)
                 = Inr tc \<and> ?Inv 0 tc"
  proof (rule for_down_rule [where P = ?Inv])
    have "int ?N - 1 = ?cpos (?n - 1)" using sf(3) by (simp add: of_nat_diff)
    then show "?Inv (?n - 1) (resize ?N (time s), int ?N - 1)" by (simp add: length_resize)
  next
    fix k x assume k: "1 \<le> k" "k < ?n" and I: "?Inv k x"
    obtain X cx where x: "x = (X, cx)" by (cases x)
    note p = segment_position [OF sf(1) sf(3) k refl two]
    let ?C0 = "?sp * k - ?off"
    have cx: "cx = int ?C0" using I x p(5) by simp
    have C1: "ninter \<le> ?C0 + 1" using p(1) sf(2) by simp
    have lx: "length X = ?N" using I x by simp
    from blend_time_segment_ok [OF lx k(1) p(3) C1 p(2) blend_alpha_ok [OF ni]]
    obtain T' where T': "blend_time_segment ninter amplitude k (X, int ?C0)
                 = Inr (T', int ?C0 - int ninter + (if removeDuplica amplitude then 1 else 0))"
      "length T' = ?N" by blast
    have "int ?C0 - int ninter + (if removeDuplica amplitude then 1 else 0) = ?cpos (k - 1)"
    proof -
      have "(if removeDuplica amplitude then 1 else 0) = 1 - int ?off" by (simp add: lag_def)
      moreover have "int ninter = int (?sp + 1 - ?off)" using sf(2) by simp
      ultimately show ?thesis using p(4) by simp
    qed
    then show "\<exists>y. blend_time_segment ninter amplitude k x = Inr y \<and> ?Inv (k - 1) y"
      using T' x cx by simp
  qed
  then obtain tc where "for_down ?n (blend_time_segment ninter amplitude)
       (resize ?N (time s), int ?N - 1) = Inr tc" by blast
  then show ?thesis
    unfolding HistData_interpolate_def Let_def Nv by (intro exI [of _ "fst tc"]) simp
qed

lemma interpolate_ok:
  assumes n: "1 \<le> ntime s" and ni: "2 \<le> ninter" and a: "1 \<le> natom s"
    and N: "N = stride ninter amplitude * (ntime s - 1) + 1 - lag amplitude"
  shows "\<exists>s'. interpolate ninter amplitude s = Inr s'
           \<and> ntime s' = N \<and> natom s' = natom s \<and> sized (3 * natom s) N s'
           \<and> (amplitude = 1 \<longrightarrow>
                (\<forall>ch < 4 + 3 * natom s. \<forall>j < ntime s.
                   channel (3 * natom s) s' ch ((ninter - 1) * j)
                     = channel (3 * natom s) (resized N s) ch j))"
proof -
  let ?w = "3 * natom s"
  let ?s0 = "resized N s"
  have Nv: "newNTime ninter amplitude (ntime s) = int N"
    using newNTime_frames [OF n ni, of amplitude] N by simp
  have w: "1 \<le> ?w" using a by simp
  have sz: "sized ?w N ?s0" by (simp add: sized_def resized_def length_resize)
  from interpolate_loop_ok [OF n ni w Nv [symmetric] sz]
  obtain sc where sc: "for_down (ntime s) (blend_segment ninter amplitude ?w) (?s0, int N - 1) = Inr sc"
    "sized ?w N (fst sc)" "same_base ?s0 (fst sc)"
    "amplitude = 1 \<longrightarrow>
       (\<forall>ch < 4 + ?w. \<forall>j < ntime s. channel ?w (fst sc) ch ((ninter - 1) * j) = channel ?w ?s0 ch j)"
    unfolding Nv by blast
  have b: "ntime (fst sc) = ntime s" "natom (fst sc) = natom s"
    using sc(3) by (simp_all add: same_base_def resized_def)
  from HistData_interpolate_ok [of "fst sc" ninter amplitude] n ni b(1)
  obtain T where T: "HistData_interpolate ninter amplitude (fst sc)
                       = Inr ((fst sc)\<lparr> ntime := N, ntimeAvail := N, time := T \<rparr>)"
    using Nv by auto
  let ?s' = "(fst sc)\<lparr> ntime := N, ntimeAvail := N, time := T \<rparr>"
  have e: "interpolate ninter amplitude s = Inr ?s'"
    unfolding interpolate_def Let_def Nv
    using sc(1) T by (simp add: resized_def)
  have "sized ?w N ?s'" using sc(2) by (simp add: sized_def)
  moreover have "\<And>ch j. channel ?w ?s' ch j = channel ?w (fst sc) ch j" by (simp add: channel_def)
  ultimately show ?thesis using e b(2) sc(4) by (intro exI [of _ ?s']) simp
qed

lemma interpolate_series_sizes:
  assumes "1 \<le> ntime s" "2 \<le> ninter" "1 \<le> natom s"
  shows "\<exists>s'. interpolate ninter amplitude s = Inr s'
           \<and> length (ekin s') = 3 * natom s * ntime s'
           \<and> length (temperature s') = 3 * ntime s'
           \<and> length (pressure s') = 9 * ntime s'
           \<and> length (entropy s') = ntime s'
           \<and> length (velocities s') = 3 * natom s * ntime s'"
proof -
  from interpolate_ok [OF assms refl, of amplitude]
  obtain s' where "interpolate ninter amplitude s = Inr s'"
    "ntime s' = stride ninter amplitude * (ntime s - 1) + 1 - lag amplitude"
    "sized (3 * natom s) (stride ninter amplitude * (ntime s - 1) + 1 - lag amplitude) s'"
    by blast
  then show ?thesis by (intro exI [of _ s']) (simp add: sized_def xyz_def)
qed





end
